theory Spec2Isabelle
  imports Main "HOL-Library.Word"
begin

section \<open>Strings and integers of the host language\<close>

text \<open>
  The handler of \<^verbatim>\<open>src/server.py\<close> works on Python strings, unbounded integers and
  byte strings. A header value reaches the handler decoded as Latin-1, so one \<^typ>\<open>char\<close>
  stands for one of its characters.
\<close>

type_synonym byte = "8 word"
type_synonym bytes = "byte list"

text \<open>\<^verbatim>\<open>s.replace(old, new)\<close>: every occurrence of \<open>old\<close>, leftmost first and without
  overlap, becomes \<open>new\<close>; with an empty \<open>old\<close>, \<open>new\<close> goes before every character and
  at the end.\<close>

function str_replace :: "string \<Rightarrow> string \<Rightarrow> string \<Rightarrow> string" where
  "str_replace old new s =
     (if old = [] then new @ concat (map (\<lambda>c. c # new) s)
      else if s = [] then []
      else if take (length old) s = old then new @ str_replace old new (drop (length old) s)
      else hd s # str_replace old new (tl s))"
  by pat_completeness auto
termination
  by (relation "measure (\<lambda>(old, new, s). length s)") auto

declare str_replace.simps [simp del]

text \<open>\<^verbatim>\<open>s.split(sep)\<close> for a separator of one character: the result is never empty.\<close>

fun split :: "char \<Rightarrow> string \<Rightarrow> string list" where
  "split sep [] = [[]]"
| "split sep (c # cs) =
     (if c = sep then [] # split sep cs
      else (case split sep cs of [] \<Rightarrow> [[c]] | t # ts \<Rightarrow> (c # t) # ts))"

text \<open>\<^verbatim>\<open>str(n)\<close> for an integer: decimal, no leading zero, a minus sign when negative.\<close>

definition digit_char :: "nat \<Rightarrow> char" where
  "digit_char d = char_of (48 + d)"

fun str_nat :: "nat \<Rightarrow> string" where
  "str_nat n = (if n < 10 then [digit_char n] else str_nat (n div 10) @ [digit_char (n mod 10)])"

declare str_nat.simps [simp del]

definition str :: "int \<Rightarrow> string" where
  "str n = (if n < 0 then CHR ''-'' # str_nat (nat (- n)) else str_nat (nat n))"

text \<open>
  \<^verbatim>\<open>int(s)\<close> for a string: white space is stripped at both ends, one sign may follow,
  then decimal digits, where a single underscore may stand between two digits. Anything
  else raises \<^verbatim>\<open>ValueError\<close>. White space is here what \<^verbatim>\<open>int()\<close> skips among the
  characters of Latin-1: the codes 9 to 13, 32, 133 and 160, and not the separators 28
  to 31. The interpreter's configurable limit on the number of
  digits is outside the model.
\<close>

datatype exn = ValueError string | OSError string | IndexError

definition is_space :: "char \<Rightarrow> bool" where
  "is_space c = (of_char c \<in> {9, 10, 11, 12, 13, 32, 133, 160 :: nat})"

definition is_digit :: "char \<Rightarrow> bool" where
  "is_digit c = (48 \<le> (of_char c :: nat) \<and> (of_char c :: nat) \<le> 57)"

definition digit_val :: "char \<Rightarrow> int" where
  "digit_val c = int (of_char c) - 48"

definition strip :: "string \<Rightarrow> string" where
  "strip s = rev (dropWhile is_space (rev (dropWhile is_space s)))"

fun int_digits :: "int \<Rightarrow> string \<Rightarrow> int option" where
  "int_digits acc [] = Some acc"
| "int_digits acc [c] = (if is_digit c then Some (acc * 10 + digit_val c) else None)"
| "int_digits acc (c # d # cs) =
     (if is_digit c then int_digits (acc * 10 + digit_val c) (d # cs)
      else if c = CHR ''_'' \<and> is_digit d then int_digits (acc * 10 + digit_val d) cs
      else None)"

definition int_unsigned :: "string \<Rightarrow> int option" where
  "int_unsigned s =
     (case s of [] \<Rightarrow> None
      | c # cs \<Rightarrow> if is_digit c then int_digits (digit_val c) cs else None)"

definition py_int :: "string \<Rightarrow> exn + int" where
  "py_int s =
     (let t = strip s;
          r = (case t of
                 [] \<Rightarrow> None
               | c # cs \<Rightarrow>
                   if c = CHR ''-'' then map_option uminus (int_unsigned cs)
                   else if c = CHR ''+'' then int_unsigned cs
                   else int_unsigned t)
      in case r of None \<Rightarrow> Inl (ValueError s) | Some n \<Rightarrow> Inr n)"

section \<open>The connection and the base class\<close>

text \<open>
  What the handler inherits from \<^verbatim>\<open>http.server\<close>, as far as \<^verbatim>\<open>src/server.py\<close> calls
  it, for a request of HTTP/1.0 or later (for HTTP/0.9 the base class sends no head at
  all). Its log lines on standard error and its bookkeeping of \<^verbatim>\<open>close_connection\<close> are
  left out. \<^verbatim>\<open>send_response\<close> and \<^verbatim>\<open>send_header\<close> only
  append to the header buffer; \<^verbatim>\<open>flush_headers\<close> hands the buffer to the socket in
  one write and empties it when the write has succeeded. The socket is the only thing
  that can fail here: \<open>writes_left = Some k\<close> is a client that takes \<open>k\<close> more writes
  and is gone afterwards, \<open>None\<close> a client that stays.
\<close>

datatype hline = StatusLine int "string option" | HeaderLine string string

datatype wire_item = Head "hline list" | Data bytes

record conn =
  headers_buffer :: "hline list"
  wire :: "wire_item list"
  writes_left :: "nat option"
  stdout :: "string list"

text \<open>What the handler takes from its surroundings without computing it: the guessed MIME
  type of the file, the values of the Server and Date headers, the error page that
  \<^verbatim>\<open>send_error\<close> renders for a status and a message, and \<^verbatim>\<open>repr\<close> of a string.\<close>

record env =
  guess_type :: string
  version_string :: string
  date_time_string :: string
  error_page :: "int \<Rightarrow> string \<Rightarrow> bytes"
  repr :: "string \<Rightarrow> string"

definition broken_pipe :: exn where
  "broken_pipe = OSError ''[Errno 32] Broken pipe''"

text \<open>\<^verbatim>\<open>str(e)\<close> of the exceptions that occur.\<close>

fun str_exn :: "env \<Rightarrow> exn \<Rightarrow> string" where
  "str_exn E (ValueError s) = ''invalid literal for int() with base 10: '' @ repr E s"
| "str_exn E (OSError m) = m"
| "str_exn E IndexError = ''list index out of range''"

definition wfile_write :: "wire_item \<Rightarrow> conn \<Rightarrow> exn option \<times> conn" where
  "wfile_write x c =
     (case writes_left c of
        None \<Rightarrow> (None, c\<lparr>wire := wire c @ [x]\<rparr>)
      | Some 0 \<Rightarrow> (Some broken_pipe, c)
      | Some (Suc k) \<Rightarrow> (None, c\<lparr>wire := wire c @ [x], writes_left := Some k\<rparr>))"

definition send_response :: "env \<Rightarrow> int \<Rightarrow> string option \<Rightarrow> conn \<Rightarrow> conn" where
  "send_response E code message c =
     c\<lparr>headers_buffer := headers_buffer c @
          [StatusLine code message,
           HeaderLine ''Server'' (version_string E),
           HeaderLine ''Date'' (date_time_string E)]\<rparr>"

definition send_header :: "string \<Rightarrow> string \<Rightarrow> conn \<Rightarrow> conn" where
  "send_header keyword v c = c\<lparr>headers_buffer := headers_buffer c @ [HeaderLine keyword v]\<rparr>"

definition flush_headers :: "conn \<Rightarrow> exn option \<times> conn" where
  "flush_headers c =
     (case wfile_write (Head (headers_buffer c)) c of
        (Some e, c') \<Rightarrow> (Some e, c')
      | (None, c') \<Rightarrow> (None, c'\<lparr>headers_buffer := []\<rparr>))"

text \<open>\<^verbatim>\<open>RangeRequestHandler.end_headers\<close>, lines 74 to 79: the three CORS headers, then
  the base class's \<^verbatim>\<open>end_headers\<close>, which flushes.\<close>

definition end_headers :: "conn \<Rightarrow> exn option \<times> conn" where
  "end_headers c =
     flush_headers
       (send_header ''Access-Control-Allow-Headers'' ''Range''
         (send_header ''Access-Control-Allow-Methods'' ''GET, OPTIONS''
           (send_header ''Access-Control-Allow-Origin'' ''*'' c)))"

text \<open>\<^verbatim>\<open>send_error(code, message)\<close> of the base class, for a GET request: status line with
  the message, the error page as body when the status allows one. It ends its headers
  through \<^verbatim>\<open>self.end_headers()\<close>, that is through the override above.\<close>

definition send_error :: "env \<Rightarrow> int \<Rightarrow> string \<Rightarrow> conn \<Rightarrow> exn option \<times> conn" where
  "send_error E code message c =
     (let c1 = send_header ''Connection'' ''close'' (send_response E code (Some message) c);
          has_body = (code \<ge> 200 \<and> code \<noteq> 204 \<and> code \<noteq> 205 \<and> code \<noteq> 304);
          body = (if has_body then error_page E code message else []);
          c2 = (if has_body
                then send_header ''Content-Length'' (str (int (length body)))
                       (send_header ''Content-Type'' ''text/html;charset=utf-8'' c1)
                else c1)
      in case end_headers c2 of
           (Some e, c3) \<Rightarrow> (Some e, c3)
         | (None, c3) \<Rightarrow> if body \<noteq> [] then wfile_write (Data body) c3 else (None, c3))"

subsection \<open>The file object\<close>

record fileobj =
  content :: bytes
  pos :: nat

definition open_rb :: "bytes \<Rightarrow> fileobj" where
  "open_rb data = \<lparr>content = data, pos = 0\<rparr>"

definition seek :: "int \<Rightarrow> fileobj \<Rightarrow> exn + fileobj" where
  "seek offset f =
     (if offset < 0 then Inl (OSError ''[Errno 22] Invalid argument'')
      else Inr (f\<lparr>pos := nat offset\<rparr>))"

text \<open>\<^verbatim>\<open>f.read(n)\<close> on a buffered binary file: \<open>n\<close> bytes, fewer only at the end of the
  file; everything that is left when \<open>n\<close> is negative.\<close>

definition read :: "int \<Rightarrow> fileobj \<Rightarrow> bytes \<times> fileobj" where
  "read n f =
     (let rest = drop (pos f) (content f);
          chunk = (if n < 0 then rest else take (nat n) rest)
      in (chunk, f\<lparr>pos := pos f + length chunk\<rparr>))"

section \<open>The handler\<close>

text \<open>Lines 30 to 32 of \<^verbatim>\<open>do_GET\<close>: the two bounds read from the header.\<close>

definition parse_range :: "string \<Rightarrow> int \<Rightarrow> exn + int \<times> int" where
  "parse_range range_header file_size =
     (case split CHR ''-'' (str_replace ''bytes='' [] range_header) of
        [] \<Rightarrow> Inl IndexError
      | m0 # ms \<Rightarrow>
          (case (if m0 \<noteq> [] then py_int m0 else Inr 0) of
             Inl e \<Rightarrow> Inl e
           | Inr start \<Rightarrow>
               (case (case ms of m1 # _ \<Rightarrow> if m1 \<noteq> [] then py_int m1 else Inr (file_size - 1)
                              | [] \<Rightarrow> Inr (file_size - 1)) of
                  Inl e \<Rightarrow> Inl e
                | Inr end' \<Rightarrow> Inr (start, end'))))"

definition chunk_size :: int where
  "chunk_size = 8192"

text \<open>Lines 53 to 58: the loop that copies the window to the client. A write that
  raises leaves the loop with the exception.\<close>

partial_function (option) stream_loop :: "fileobj \<Rightarrow> int \<Rightarrow> conn \<Rightarrow> (exn option \<times> conn) option" where
  [code]: "stream_loop f bytes_to_read c =
     (if bytes_to_read > 0 then
        (case read (min chunk_size bytes_to_read) f of
           (chunk, f') \<Rightarrow>
             if chunk = [] then Some (None, c)
             else
               (case wfile_write (Data chunk) c of
                  (Some e, c') \<Rightarrow> Some (Some e, c')
                | (None, c') \<Rightarrow> stream_loop f' (bytes_to_read - int (length chunk)) c'))
      else Some (None, c))"

text \<open>What the request names: nothing, a directory or a regular file with its bytes.
  For a directory the handler defers to the base class, whose answer (a listing, an index
  file or a redirect: status, headers and body) is a parameter here; the base class too
  ends its headers through \<^verbatim>\<open>self.end_headers()\<close>.\<close>

datatype resource = Missing | Directory int "(string \<times> string) list" bytes | File bytes

definition base_do_GET ::
    "env \<Rightarrow> int \<Rightarrow> (string \<times> string) list \<Rightarrow> bytes \<Rightarrow> conn \<Rightarrow> exn option \<times> conn" where
  "base_do_GET E code hs body c =
     (case end_headers (foldl (\<lambda>c' (k, v). send_header k v c') (send_response E code None c) hs) of
        (Some e, c1) \<Rightarrow> (Some e, c1)
      | (None, c1) \<Rightarrow> if body \<noteq> [] then wfile_write (Data body) c1 else (None, c1))"

text \<open>Lines 30 to 58, the body of the \<^verbatim>\<open>try\<close>: \<open>Some e\<close> in the first component is an
  exception on its way to the \<^verbatim>\<open>except\<close> clause.\<close>

definition range_request :: "env \<Rightarrow> bytes \<Rightarrow> string \<Rightarrow> conn \<Rightarrow> (exn option \<times> conn) option" where
  "range_request E data range_header c =
     (let file_size = int (length data) in
      case parse_range range_header file_size of
        Inl e \<Rightarrow> Some (Some e, c)
      | Inr (start, end') \<Rightarrow>
          if start \<ge> file_size \<or> end' \<ge> file_size \<or> start > end'
          then Some (send_error E 416 ''Requested Range Not Satisfiable'' c)
          else
            (case end_headers
                    (send_header ''Access-Control-Allow-Origin'' ''*''
                      (send_header ''Accept-Ranges'' ''bytes''
                        (send_header ''Content-Range''
                            (''bytes '' @ str start @ ''-'' @ str end' @ ''/'' @ str file_size)
                          (send_header ''Content-Length'' (str (end' - start + 1))
                            (send_header ''Content-Type'' (guess_type E)
                              (send_response E 206 None c)))))) of
               (Some e, c1) \<Rightarrow> Some (Some e, c1)
             | (None, c1) \<Rightarrow>
                 (case seek start (open_rb data) of
                    Inl e \<Rightarrow> Some (Some e, c1)
                  | Inr f \<Rightarrow> stream_loop f (end' - start + 1) c1)))"

text \<open>Lines 63 to 72, the branch without a range: the whole file in one write. Nothing
  catches an exception here.\<close>

definition full_request :: "env \<Rightarrow> bytes \<Rightarrow> conn \<Rightarrow> exn option \<times> conn" where
  "full_request E data c =
     (let file_size = int (length data) in
      case end_headers
              (send_header ''Access-Control-Allow-Origin'' ''*''
                (send_header ''Accept-Ranges'' ''bytes''
                  (send_header ''Content-Length'' (str file_size)
                    (send_header ''Content-Type'' (guess_type E)
                      (send_response E 200 None c))))) of
        (Some e, c1) \<Rightarrow> (Some e, c1)
      | (None, c1) \<Rightarrow> wfile_write (Data (fst (read (- 1) (open_rb data)))) c1)"

text \<open>\<^verbatim>\<open>do_GET\<close>, lines 10 to 72. The result is \<open>None\<close> if the handler does not return;
  otherwise the exception that leaves the handler, if any, and the connection. A header
  that is absent and a header with an empty value are both false for \<^verbatim>\<open>if range_header\<close>.
  The file is taken to be readable and unchanged while the request is served, so that
  \<^verbatim>\<open>os.path.getsize\<close> is the length of the bytes that \<^verbatim>\<open>open\<close> gives access to.\<close>

definition do_GET :: "env \<Rightarrow> resource \<Rightarrow> string option \<Rightarrow> conn \<Rightarrow> (exn option \<times> conn) option" where
  "do_GET E res range_header c =
     (case res of
        Missing \<Rightarrow> Some (send_error E 404 ''File not found'' c)
      | Directory code hs body \<Rightarrow> Some (base_do_GET E code hs body c)
      | File data \<Rightarrow>
          (case range_header of
             None \<Rightarrow> Some (full_request E data c)
           | Some h \<Rightarrow>
               if h \<noteq> [] then
                 (case range_request E data h c of
                    None \<Rightarrow> None
                  | Some (None, c1) \<Rightarrow> Some (None, c1)
                  | Some (Some e, c1) \<Rightarrow>
                      Some (send_error E 500 (str_exn E e)
                              (c1\<lparr>stdout := stdout c1 @
                                    [''Error processing range request: '' @ str_exn E e]\<rparr>)))
               else Some (full_request E data c)))"

text \<open>\<^verbatim>\<open>do_OPTIONS\<close>, lines 81 to 87.\<close>

definition do_OPTIONS :: "env \<Rightarrow> conn \<Rightarrow> exn option \<times> conn" where
  "do_OPTIONS E c =
     end_headers
       (send_header ''Access-Control-Allow-Headers'' ''Range''
         (send_header ''Access-Control-Allow-Methods'' ''GET, OPTIONS''
           (send_header ''Access-Control-Allow-Origin'' ''*''
             (send_response E 200 None c))))"

section \<open>What the client sees\<close>

text \<open>A connection at the start of a request, and the responses that the bytes on the
  wire make up: each head with the body data written after it.\<close>

definition new_conn :: "nat option \<Rightarrow> conn" where
  "new_conn w = \<lparr>headers_buffer = [], wire = [], writes_left = w, stdout = []\<rparr>"

fun body_after :: "wire_item list \<Rightarrow> bytes" where
  "body_after (Data d # ws) = d @ body_after ws"
| "body_after ws = []"

fun responses :: "wire_item list \<Rightarrow> (hline list \<times> bytes) list" where
  "responses [] = []"
| "responses (Head hs # ws) = (hs, body_after ws) # responses ws"
| "responses (Data d # ws) = responses ws"

fun status_codes :: "hline list \<Rightarrow> int list" where
  "status_codes [] = []"
| "status_codes (StatusLine code m # hs) = code # status_codes hs"
| "status_codes (HeaderLine k v # hs) = status_codes hs"

fun status_lines :: "hline list \<Rightarrow> (int \<times> string option) list" where
  "status_lines [] = []"
| "status_lines (StatusLine code m # hs) = (code, m) # status_lines hs"
| "status_lines (HeaderLine k v # hs) = status_lines hs"

fun header_values :: "string \<Rightarrow> hline list \<Rightarrow> string list" where
  "header_values k [] = []"
| "header_values k (StatusLine code m # hs) = header_values k hs"
| "header_values k (HeaderLine k' v # hs) = (if k' = k then v # header_values k hs else header_values k hs)"

definition has_cors :: "hline list \<Rightarrow> bool" where
  "has_cors hs =
     (HeaderLine ''Access-Control-Allow-Origin'' ''*'' \<in> set hs \<and>
      HeaderLine ''Access-Control-Allow-Methods'' ''GET, OPTIONS'' \<in> set hs \<and>
      HeaderLine ''Access-Control-Allow-Headers'' ''Range'' \<in> set hs)"

text \<open>The chunks one run of the loop may write when it starts with \<open>n\<close> bytes to go:
  each is non-empty and no longer than \<open>min chunk_size n\<close>, and the next one is measured
  against what is left after it.\<close>

fun chunks_ok :: "int \<Rightarrow> bytes list \<Rightarrow> bool" where
  "chunks_ok n [] = True"
| "chunks_ok n (ch # chs) =
     (ch \<noteq> [] \<and> int (length ch) \<le> min chunk_size n \<and> chunks_ok (n - int (length ch)) chs)"

text \<open>An environment and a file for the concrete instances below.\<close>

definition example_env :: env where
  "example_env =
     \<lparr>guess_type = ''application/octet-stream'',
      version_string = ''SimpleHTTP/0.6'',
      date_time_string = ''Thu, 01 Jan 1970 00:00:00 GMT'',
      error_page = (\<lambda>code message. []),
      repr = (\<lambda>s. [CHR 0x27] @ s @ [CHR 0x27])\<rparr>"

definition example_data :: bytes where
  "example_data = [10, 11, 12, 13, 14]"

text \<open>The head of the response that \<^verbatim>\<open>send_error\<close> builds on an empty header buffer.\<close>

definition error_head :: "env \<Rightarrow> int \<Rightarrow> string \<Rightarrow> hline list" where
  "error_head E code message =
     [StatusLine code (Some message),
      HeaderLine ''Server'' (version_string E),
      HeaderLine ''Date'' (date_time_string E),
      HeaderLine ''Connection'' ''close'',
      HeaderLine ''Content-Type'' ''text/html;charset=utf-8'',
      HeaderLine ''Content-Length'' (str (int (length (error_page E code message)))),
      HeaderLine ''Access-Control-Allow-Origin'' ''*'',
      HeaderLine ''Access-Control-Allow-Methods'' ''GET, OPTIONS'',
      HeaderLine ''Access-Control-Allow-Headers'' ''Range'']"

text \<open>Windows that follow one another from offset \<open>a\<close> to the end of a file of length
  \<open>L\<close>, and the body of the 206 response to the request for one window.\<close>

fun covers :: "int \<Rightarrow> (int \<times> int) list \<Rightarrow> int \<Rightarrow> bool" where
  "covers a [] L = (a = L)"
| "covers a ((s, e) # ws) L = (s = a \<and> s \<le> e \<and> e < L \<and> covers (e + 1) ws L)"

definition range_body :: "env \<Rightarrow> bytes \<Rightarrow> int \<times> int \<Rightarrow> bytes option" where
  "range_body E data w =
     (case do_GET E (File data) (Some (''bytes='' @ str (fst w) @ ''-'' @ str (snd w)))
             (new_conn None) of
        Some (None, c') \<Rightarrow>
          (case responses (wire c') of
             [(hs, body)] \<Rightarrow> if status_codes hs = [206] then Some body else None
           | _ \<Rightarrow> None)
      | _ \<Rightarrow> None)"

text \<open>The heads on the wire, in order.\<close>

fun heads :: "wire_item list \<Rightarrow> hline list list" where
  "heads [] = []"
| "heads (Head hs # ws) = hs # heads ws"
| "heads (Data d # ws) = heads ws"

text \<open>What a call of the handler comes to: the exception that leaves it, if any, and the
  status codes and body of every response on the wire.\<close>

definition outcome ::
    "(exn option \<times> conn) option \<Rightarrow> (exn option \<times> (int list \<times> bytes) list) option" where
  "outcome r =
     map_option (\<lambda>(ex, c). (ex, map (\<lambda>(hs, body). (status_codes hs, body)) (responses (wire c)))) r"

text \<open>What stays behind in the handler: the status lines of the heads it has begun and
  not sent, and what it has printed.\<close>

definition aftermath ::
    "(exn option \<times> conn) option \<Rightarrow> ((int \<times> string option) list \<times> string list) option" where
  "aftermath r = map_option (\<lambda>(ex, c). (status_lines (headers_buffer c), stdout c)) r"

section \<open>Decimal numbers and the string operations\<close>

lemma of_char_digit_char: "d < 10 \<Longrightarrow> (of_char (digit_char d) :: nat) = 48 + d"
  by (simp add: digit_char_def)

lemma is_digit_digit_char: "d < 10 \<Longrightarrow> is_digit (digit_char d)"
  by (simp add: is_digit_def of_char_digit_char)

lemma digit_val_digit_char: "d < 10 \<Longrightarrow> digit_val (digit_char d) = int d"
  by (simp add: digit_val_def of_char_digit_char)

lemma str_nat_digits: "c \<in> set (str_nat n) \<Longrightarrow> is_digit c"
proof (induction n arbitrary: c rule: str_nat.induct)
  case (1 n)
  show ?case
  proof (cases "n < 10")
    case True
    with "1.prems" show ?thesis
      by (simp add: str_nat.simps [of n] is_digit_digit_char)
  next
    case False
    with "1.prems" "1.IH" show ?thesis
      by (auto simp: str_nat.simps [of n] is_digit_digit_char)
  qed
qed

lemma str_nat_not_Nil: "str_nat n \<noteq> []"
  by (subst str_nat.simps) simp

lemma int_digits_all_digits:
  "\<forall>c \<in> set s. is_digit c \<Longrightarrow> int_digits a s = Some (foldl (\<lambda>a c. a * 10 + digit_val c) a s)"
  by (induction a s rule: int_digits.induct) auto

lemma int_unsigned_all_digits:
  "s \<noteq> [] \<Longrightarrow> \<forall>c \<in> set s. is_digit c \<Longrightarrow>
   int_unsigned s = Some (foldl (\<lambda>a c. a * 10 + digit_val c) 0 s)"
  by (cases s) (simp_all add: int_unsigned_def int_digits_all_digits)

lemma foldl_str_nat: "foldl (\<lambda>a c. a * 10 + digit_val c) 0 (str_nat n) = int n"
proof (induction n rule: str_nat.induct)
  case (1 n)
  show ?case
  proof (cases "n < 10")
    case True
    then show ?thesis by (simp add: str_nat.simps [of n] digit_val_digit_char)
  next
    case False
    with "1.IH" have "foldl (\<lambda>a c. a * 10 + digit_val c) 0 (str_nat n)
        = int (n div 10) * 10 + int (n mod 10)"
      by (simp add: str_nat.simps [of n] digit_val_digit_char)
    also have "\<dots> = int n" by presburger
    finally show ?thesis .
  qed
qed

lemma is_digit_not_space: "is_digit c \<Longrightarrow> \<not> is_space c"
  by (auto simp: is_digit_def is_space_def)

lemma is_digit_not_sign: "is_digit c \<Longrightarrow> c \<noteq> CHR ''-'' \<and> c \<noteq> CHR ''+'' \<and> c \<noteq> CHR ''b''"
  by (auto simp: is_digit_def)

lemma strip_no_space: "\<forall>c \<in> set s. \<not> is_space c \<Longrightarrow> strip s = s"
proof (cases s)
  case Nil
  then show ?thesis by (simp add: strip_def)
next
  case (Cons a t)
  assume h: "\<forall>c \<in> set s. \<not> is_space c"
  with Cons have 1: "dropWhile is_space s = s" by simp
  have "rev s \<noteq> []" using Cons by simp
  moreover have "hd (rev s) \<in> set s" using Cons by (metis calculation hd_in_set set_rev)
  ultimately have "dropWhile is_space (rev s) = rev s"
    using h by (simp add: dropWhile_eq_self_iff)
  with 1 show ?thesis by (simp add: strip_def)
qed

lemma py_int_separator: "py_int [CHR 0x1F, CHR ''2''] = Inl (ValueError [CHR 0x1F, CHR ''2''])"
  by code_simp

lemma py_int_str_nat: "py_int (str_nat n) = Inr (int n)"
proof -
  let ?s = "str_nat n"
  have d: "\<forall>c \<in> set ?s. is_digit c" by (simp add: str_nat_digits)
  then have "strip ?s = ?s" by (simp add: strip_no_space is_digit_not_space)
  moreover obtain c cs where s: "?s = c # cs" using str_nat_not_Nil by (cases ?s) auto
  moreover have "c \<noteq> CHR ''-'' \<and> c \<noteq> CHR ''+''" using d s is_digit_not_sign by simp
  moreover have "int_unsigned ?s = Some (int n)"
    using int_unsigned_all_digits [OF str_nat_not_Nil d] by (simp add: foldl_str_nat)
  ultimately show ?thesis by (simp add: py_int_def)
qed

lemma str_replace_Nil: "old \<noteq> [] \<Longrightarrow> str_replace old new [] = []"
  by (subst str_replace.simps) simp

lemma str_replace_skip:
  "old \<noteq> [] \<Longrightarrow> hd old \<noteq> a \<Longrightarrow> str_replace old new (a # s) = a # str_replace old new s"
proof -
  assume h: "old \<noteq> []" "hd old \<noteq> a"
  then have "take (length old) (a # s) \<noteq> old" by (cases old) auto
  with h show ?thesis by (subst str_replace.simps) simp
qed

lemma str_replace_match:
  "old \<noteq> [] \<Longrightarrow> str_replace old new (old @ s) = new @ str_replace old new s"
  by (subst str_replace.simps) simp

lemma str_replace_bytes_id: "CHR ''b'' \<notin> set s \<Longrightarrow> str_replace ''bytes='' [] s = s"
  by (induction s) (simp_all add: str_replace_Nil str_replace_skip)

lemma str_replace_bytes_prefix: "str_replace ''bytes='' [] (''bytes='' @ s) = str_replace ''bytes='' [] s"
  using str_replace_match [of "''bytes=''" "[]" s] by simp

lemma split_no_sep: "sep \<notin> set s \<Longrightarrow> split sep s = [s]"
  by (induction s) auto

lemma split_append_sep: "sep \<notin> set a \<Longrightarrow> split sep (a @ sep # b) = a # split sep b"
  by (induction a) auto

section \<open>Writing to a client that stays\<close>

lemma wfile_write_open [simp]:
  "writes_left c = None \<Longrightarrow> wfile_write x c = (None, c\<lparr>wire := wire c @ [x]\<rparr>)"
  by (simp add: wfile_write_def)

lemma end_headers_open:
  "writes_left c = None \<Longrightarrow>
   end_headers c =
     (None, c\<lparr>headers_buffer := [],
             wire := wire c @
               [Head (headers_buffer c @
                  [HeaderLine ''Access-Control-Allow-Origin'' ''*'',
                   HeaderLine ''Access-Control-Allow-Methods'' ''GET, OPTIONS'',
                   HeaderLine ''Access-Control-Allow-Headers'' ''Range''])]\<rparr>)"
  by (simp add: end_headers_def flush_headers_def send_header_def)

lemma send_header_writes_left [simp]: "writes_left (send_header k v c) = writes_left c"
  by (simp add: send_header_def)

lemma send_response_writes_left [simp]: "writes_left (send_response E code m c) = writes_left c"
  by (simp add: send_response_def)

lemma new_conn_simps [simp]:
  "writes_left (new_conn w) = w" "wire (new_conn w) = []"
  "headers_buffer (new_conn w) = []" "stdout (new_conn w) = []"
  by (simp_all add: new_conn_def)

section \<open>A request without a Range header\<close>

text \<open>
  Claim C5. A GET request for a regular file of any length, sent without a Range header
  on a connection that stays open, returns normally and puts exactly one response on
  the wire: status 200, one Content-Length header with the decimal file length, and the
  whole file as body.
\<close>

theorem do_GET_without_range:
  "\<exists>c' hs. do_GET E (File data) None (new_conn None) = Some (None, c') \<and>
      responses (wire c') = [(hs, data)] \<and>
      status_codes hs = [200] \<and>
      header_values ''Content-Length'' hs = [str (int (length data))]"
  by (simp add: do_GET_def full_request_def end_headers_open send_header_def send_response_def
      read_def open_rb_def)

section \<open>The streaming loop\<close>

lemma wfile_write_cases:
  "wfile_write x c = (broken_pipe_opt, c') \<Longrightarrow>
     (broken_pipe_opt = Some broken_pipe \<and> c' = c \<and> writes_left c = Some 0) \<or>
     (broken_pipe_opt = None \<and> c' = c\<lparr>wire := wire c @ [x], writes_left := map_option (\<lambda>k. k - 1) (writes_left c)\<rparr>
        \<and> writes_left c \<noteq> Some 0)"
  by (auto simp: wfile_write_def split: option.splits nat.splits)

lemma read_chunk:
  "read n f = (chunk, f') \<Longrightarrow> 0 \<le> n \<Longrightarrow>
     chunk = take (nat n) (drop (pos f) (content f)) \<and> f' = f\<lparr>pos := pos f + length chunk\<rparr>"
  by (auto simp: read_def Let_def)

lemma stream_loop_total:
  "\<exists>ex c' chunks. stream_loop f n c = Some (ex, c') \<and> wire c' = wire c @ map Data chunks \<and>
      headers_buffer c' = headers_buffer c \<and> stdout c' = stdout c \<and> chunks_ok n chunks"
proof (induction "nat n" arbitrary: f n c rule: less_induct)
  case less
  show ?case
  proof (cases "n > 0")
    case False
    then have "stream_loop f n c = Some (None, c)" by (subst stream_loop.simps) simp
    then show ?thesis by (intro exI [of _ None] exI [of _ c] exI [of _ "[]"]) simp
  next
    case True
    obtain chunk f' where r: "read (min chunk_size n) f = (chunk, f')" by fastforce
    have m: "0 \<le> min chunk_size n" using True by (simp add: chunk_size_def)
    have "length chunk \<le> nat (min chunk_size n)"
      using read_chunk [OF r m] by simp
    then have len: "int (length chunk) \<le> min chunk_size n"
      using m by linarith
    show ?thesis
    proof (cases "chunk = []")
      case True
      with \<open>n > 0\<close> r have "stream_loop f n c = Some (None, c)" by (subst stream_loop.simps) simp
      then show ?thesis by (intro exI [of _ None] exI [of _ c] exI [of _ "[]"]) simp
    next
      case False
      obtain e c1 where w: "wfile_write (Data chunk) c = (e, c1)" by fastforce
      show ?thesis
      proof (cases e)
        case (Some x)
        with w wfile_write_cases [OF w] have "c1 = c" by simp
        with \<open>n > 0\<close> r False w Some have "stream_loop f n c = Some (Some x, c)"
          by (subst stream_loop.simps) simp
        then show ?thesis by (intro exI [of _ "Some x"] exI [of _ c] exI [of _ "[]"]) simp
      next
        case None
        with wfile_write_cases [OF w]
        have c1: "wire c1 = wire c @ [Data chunk]" "headers_buffer c1 = headers_buffer c"
          "stdout c1 = stdout c" by auto
        let ?n' = "n - int (length chunk)"
        have "nat ?n' < nat n" using False \<open>n > 0\<close> by (cases chunk) auto
        from less [OF this, of f' c1] obtain ex c' chunks where
          ih: "stream_loop f' ?n' c1 = Some (ex, c')" "wire c' = wire c1 @ map Data chunks"
            "headers_buffer c' = headers_buffer c1" "stdout c' = stdout c1" "chunks_ok ?n' chunks"
          by blast
        have "stream_loop f n c = Some (ex, c')"
          using \<open>n > 0\<close> r False w None ih(1) by (subst stream_loop.simps) simp
        moreover have "wire c' = wire c @ map Data (chunk # chunks)" using ih(2) c1 by simp
        moreover have "chunks_ok n (chunk # chunks)" using False len ih(5) by simp
        moreover have "headers_buffer c' = headers_buffer c" "stdout c' = stdout c"
          using ih(3,4) c1 by simp_all
        ultimately show ?thesis
          by (intro exI [of _ ex] exI [of _ c'] exI [of _ "chunk # chunks"]) simp
      qed
    qed
  qed
qed

lemma chunks_ok_total: "chunks_ok n chunks \<Longrightarrow> int (length (concat chunks)) \<le> max 0 n"
proof (induction chunks arbitrary: n)
  case Nil
  then show ?case by simp
next
  case (Cons ch chs)
  then have le: "int (length ch) \<le> n" and rest: "chunks_ok (n - int (length ch)) chs"
    by simp_all
  from Cons.IH [OF rest] le have "int (length (concat chs)) \<le> n - int (length ch)"
    by simp
  then show ?case by simp
qed

text \<open>
  Claim C10. The streaming loop returns from every file position, every number of bytes
  to go and every connection (so for every validated window, where the number is
  \<open>end - start + 1\<close>). It has written a sequence of chunks and nothing else; each chunk
  is non-empty and at most \<open>min 8192 remaining\<close> bytes long, where \<open>remaining\<close> goes
  down by the length of every chunk written; together they are at most the bytes to go.
  An empty read and a failed write end the loop at once.
\<close>

theorem stream_loop_terminates:
  "\<exists>ex c' chunks. stream_loop f n c = Some (ex, c') \<and>
      wire c' = wire c @ map Data chunks \<and>
      chunks_ok n chunks \<and>
      int (length (concat chunks)) \<le> max 0 n"
proof -
  obtain ex c' chunks where
    "stream_loop f n c = Some (ex, c')" "wire c' = wire c @ map Data chunks" "chunks_ok n chunks"
    using stream_loop_total [of f n c] by blast
  then show ?thesis using chunks_ok_total by blast
qed

lemma stream_loop_open:
  "writes_left c = None \<Longrightarrow> 0 \<le> n \<Longrightarrow> pos f + nat n \<le> length (content f) \<Longrightarrow>
   \<exists>chunks. stream_loop f n c = Some (None, c\<lparr>wire := wire c @ map Data chunks\<rparr>) \<and>
      concat chunks = take (nat n) (drop (pos f) (content f))"
proof (induction "nat n" arbitrary: f n c rule: less_induct)
  case less
  show ?case
  proof (cases "n > 0")
    case False
    then have "stream_loop f n c = Some (None, c)" by (subst stream_loop.simps) simp
    with False show ?thesis by (intro exI [of _ "[]"]) simp
  next
    case True
    define k where "k = nat (min chunk_size n)"
    define xs where "xs = drop (pos f) (content f)"
    define chunk where "chunk = take k xs"
    define f' where "f' = f\<lparr>pos := pos f + length chunk\<rparr>"
    define c1 where "c1 = c\<lparr>wire := wire c @ [Data chunk]\<rparr>"
    define n' where "n' = n - int (length chunk)"
    have k: "0 < k" "k \<le> nat n" "int k = min chunk_size n"
      using True by (simp_all add: k_def chunk_size_def)
    have "k \<le> length xs" using k(2) less.prems(3) by (simp add: xs_def)
    then have len: "length chunk = k" by (simp add: chunk_def)
    have r: "read (min chunk_size n) f = (chunk, f')"
      using True by (simp add: read_def Let_def chunk_size_def chunk_def xs_def k_def f'_def)
    have ne: "chunk \<noteq> []" using len k(1) by auto
    have w: "wfile_write (Data chunk) c = (None, c1)" using less.prems(1) by (simp add: c1_def)
    have step: "stream_loop f n c = stream_loop f' n' c1"
      using True r ne w by (subst stream_loop.simps) (simp add: n'_def)
    have n': "nat n' = nat n - k" "0 \<le> n'" "nat n' < nat n"
      using len k True by (simp_all add: n'_def)
    have "writes_left c1 = None" using less.prems(1) by (simp add: c1_def)
    moreover have "pos f' + nat n' \<le> length (content f')"
      using n'(1) len k(2) less.prems(3) by (simp add: f'_def)
    ultimately obtain chunks where
      ih: "stream_loop f' n' c1 = Some (None, c1\<lparr>wire := wire c1 @ map Data chunks\<rparr>)"
        "concat chunks = take (nat n') (drop (pos f') (content f'))"
      using less.hyps [OF n'(3), of c1 f'] n'(2) by blast
    have "drop (pos f') (content f') = drop k xs"
      by (simp add: f'_def xs_def len add.commute)
    then have "concat chunks = take (nat n - k) (drop k xs)"
      using ih(2) n'(1) by simp
    then have "concat (chunk # chunks) = take (k + (nat n - k)) xs"
      by (simp add: take_add chunk_def)
    then have "concat (chunk # chunks) = take (nat n) (drop (pos f) (content f))"
      using k(2) by (simp add: xs_def)
    moreover have "stream_loop f n c = Some (None, c\<lparr>wire := wire c @ map Data (chunk # chunks)\<rparr>)"
      using step ih(1) by (simp add: c1_def)
    ultimately show ?thesis by blast
  qed
qed

lemma body_after_Data: "body_after (map Data chunks @ ws) = concat chunks @ body_after ws"
  by (induction chunks) simp_all

lemma responses_Data: "responses (map Data chunks @ ws) = responses ws"
  by (induction chunks) simp_all

lemma body_after_map_Data [simp]: "body_after (map Data chunks) = concat chunks"
  using body_after_Data [of chunks "[]"] by simp

lemma responses_map_Data [simp]: "responses (map Data chunks) = []"
  using responses_Data [of chunks "[]"] by simp

lemma do_GET_partial:
  assumes h: "h \<noteq> []"
    and p: "parse_range h (int (length data)) = Inr (s, e)"
    and b: "0 \<le> s" "s \<le> e" "e < int (length data)"
  shows "\<exists>c' hs. do_GET E (File data) (Some h) (new_conn None) = Some (None, c') \<and>
      responses (wire c') = [(hs, take (nat (e - s + 1)) (drop (nat s) data))] \<and>
      status_codes hs = [206] \<and>
      header_values ''Content-Length'' hs = [str (e - s + 1)] \<and>
      header_values ''Content-Range'' hs =
        [''bytes '' @ str s @ ''-'' @ str e @ ''/'' @ str (int (length data))] \<and>
      has_cors hs"
proof -
  define hs where "hs =
    [StatusLine 206 None, HeaderLine ''Server'' (version_string E),
     HeaderLine ''Date'' (date_time_string E),
     HeaderLine ''Content-Type'' (guess_type E),
     HeaderLine ''Content-Length'' (str (e - s + 1)),
     HeaderLine ''Content-Range''
       (''bytes '' @ str s @ ''-'' @ str e @ ''/'' @ str (int (length data))),
     HeaderLine ''Accept-Ranges'' ''bytes'',
     HeaderLine ''Access-Control-Allow-Origin'' ''*'',
     HeaderLine ''Access-Control-Allow-Origin'' ''*'',
     HeaderLine ''Access-Control-Allow-Methods'' ''GET, OPTIONS'',
     HeaderLine ''Access-Control-Allow-Headers'' ''Range'']"
  define c1 where "c1 = \<lparr>headers_buffer = [], wire = [Head hs], writes_left = None, stdout = []\<rparr>"
  define f where "f = \<lparr>content = data, pos = nat s\<rparr>"
  have eh: "end_headers
       (send_header ''Access-Control-Allow-Origin'' ''*''
         (send_header ''Accept-Ranges'' ''bytes''
           (send_header ''Content-Range''
               (''bytes '' @ str s @ ''-'' @ str e @ ''/'' @ str (int (length data)))
             (send_header ''Content-Length'' (str (e - s + 1))
               (send_header ''Content-Type'' (guess_type E)
                 (send_response E 206 None (new_conn None))))))) = (None, c1)"
    by (simp add: end_headers_open send_header_def send_response_def new_conn_def c1_def hs_def)
  have sk: "seek s (open_rb data) = Inr f"
    using b(1) by (simp add: seek_def open_rb_def f_def)
  have "writes_left c1 = None" by (simp add: c1_def)
  moreover have "0 \<le> e - s + 1" using b by simp
  moreover have "pos f + nat (e - s + 1) \<le> length (content f)"
    using b by (simp add: f_def)
  ultimately obtain chunks where
    lp: "stream_loop f (e - s + 1) c1 = Some (None, c1\<lparr>wire := wire c1 @ map Data chunks\<rparr>)"
      "concat chunks = take (nat (e - s + 1)) (drop (pos f) (content f))"
    using stream_loop_open [of c1 "e - s + 1" f] by blast
  have rr: "range_request E data h (new_conn None)
      = Some (None, c1\<lparr>wire := wire c1 @ map Data chunks\<rparr>)"
    using p b lp(1) eh sk by (simp add: range_request_def)
  have "do_GET E (File data) (Some h) (new_conn None)
      = Some (None, c1\<lparr>wire := wire c1 @ map Data chunks\<rparr>)"
    using h by (simp add: do_GET_def rr)
  moreover have "responses (wire (c1\<lparr>wire := wire c1 @ map Data chunks\<rparr>))
      = [(hs, take (nat (e - s + 1)) (drop (nat s) data))]"
    using lp(2) by (simp add: c1_def f_def)
  moreover have "status_codes hs = [206]" by (simp add: hs_def)
  moreover have "header_values ''Content-Length'' hs = [str (e - s + 1)]" by (simp add: hs_def)
  moreover have "header_values ''Content-Range'' hs =
        [''bytes '' @ str s @ ''-'' @ str e @ ''/'' @ str (int (length data))]"
    by (simp add: hs_def)
  moreover have "has_cors hs" by (simp add: hs_def has_cors_def)
  ultimately show ?thesis by blast
qed

section \<open>Range headers in decimal\<close>

lemma str_nat_chars: "CHR ''b'' \<notin> set (str_nat n)" "CHR ''-'' \<notin> set (str_nat n)"
  using str_nat_digits [of _ n] is_digit_not_sign by blast+

lemma str_nonneg: "0 \<le> n \<Longrightarrow> str n = str_nat (nat n)"
  by (simp add: str_def)

lemma parse_range_both:
  "parse_range (''bytes='' @ str_nat a @ ''-'' @ str_nat b) L = Inr (int a, int b)"
proof -
  have "str_replace ''bytes='' [] (''bytes='' @ str_nat a @ ''-'' @ str_nat b)
      = str_nat a @ ''-'' @ str_nat b"
    by (simp only: str_replace_bytes_prefix) (rule str_replace_bytes_id, simp add: str_nat_chars)
  moreover have "split CHR ''-'' (str_nat a @ ''-'' @ str_nat b) = [str_nat a, str_nat b]"
    by (simp add: split_append_sep split_no_sep str_nat_chars)
  ultimately show ?thesis
    by (simp add: parse_range_def str_nat_not_Nil py_int_str_nat)
qed

lemma parse_range_open_end:
  "parse_range (''bytes='' @ str_nat a @ ''-'') L = Inr (int a, L - 1)"
proof -
  have "str_replace ''bytes='' [] (''bytes='' @ str_nat a @ ''-'') = str_nat a @ ''-''"
    by (simp only: str_replace_bytes_prefix) (rule str_replace_bytes_id, simp add: str_nat_chars)
  moreover have "split CHR ''-'' (str_nat a @ ''-'') = [str_nat a, []]"
    by (simp add: split_append_sep str_nat_chars)
  ultimately show ?thesis
    by (simp add: parse_range_def str_nat_not_Nil py_int_str_nat)
qed

lemma parse_range_open_start:
  "parse_range (''bytes=-'' @ str_nat b) L = Inr (0, int b)"
proof -
  have "str_replace ''bytes='' [] (''bytes='' @ ''-'' @ str_nat b) = ''-'' @ str_nat b"
    by (simp only: str_replace_bytes_prefix) (rule str_replace_bytes_id, simp add: str_nat_chars)
  moreover have "split CHR ''-'' (CHR ''-'' # str_nat b) = [[], str_nat b]"
    by (simp add: split_no_sep str_nat_chars)
  ultimately show ?thesis
    by (simp add: parse_range_def str_nat_not_Nil py_int_str_nat)
qed

text \<open>
  Claim C1. For a file of length \<open>L\<close> and bounds \<open>0 \<le> start \<le> end \<le> L - 1\<close>, a GET
  request with the header \<open>bytes=<start>-<end>\<close> (both bounds in decimal), on a
  connection that stays open, returns normally with exactly one response: status 206,
  Content-Length \<open>end - start + 1\<close>, Content-Range \<open>bytes <start>-<end>/<L>\<close>, and as body
  the \<open>end - start + 1\<close> bytes of the file from offset \<open>start\<close> on.
\<close>

theorem do_GET_range:
  assumes "0 \<le> start" "start \<le> end'" "end' \<le> int (length data) - 1"
  shows "\<exists>c' hs. do_GET E (File data) (Some (''bytes='' @ str start @ ''-'' @ str end'))
                   (new_conn None) = Some (None, c') \<and>
      responses (wire c') = [(hs, take (nat (end' - start + 1)) (drop (nat start) data))] \<and>
      status_codes hs = [206] \<and>
      header_values ''Content-Length'' hs = [str (end' - start + 1)] \<and>
      header_values ''Content-Range'' hs =
        [''bytes '' @ str start @ ''-'' @ str end' @ ''/'' @ str (int (length data))]"
proof -
  have "parse_range (''bytes='' @ str start @ ''-'' @ str end') (int (length data))
      = Inr (start, end')"
    using assms parse_range_both [of "nat start" "nat end'"] by (simp add: str_nonneg)
  moreover have "''bytes='' @ str start @ ''-'' @ str end' \<noteq> []" by simp
  moreover have "end' < int (length data)" using assms by simp
  ultimately show ?thesis
    using do_GET_partial [of "''bytes='' @ str start @ ''-'' @ str end'" data start end' E] assms
    by blast
qed

text \<open>The instance \<open>bytes=1-3\<close> on a file of five bytes.\<close>

lemma str_small: "str 1 = ''1''" "str 3 = ''3''" "str 5 = ''5''"
  by code_simp+

theorem do_GET_range_witness:
  "\<exists>c' hs. do_GET example_env (File example_data) (Some ''bytes=1-3'') (new_conn None)
        = Some (None, c') \<and>
      responses (wire c') = [(hs, [11, 12, 13])] \<and>
      status_codes hs = [206] \<and>
      header_values ''Content-Length'' hs = [''3''] \<and>
      header_values ''Content-Range'' hs = [''bytes 1-3/5'']"
  using do_GET_range [of 1 3 example_data example_env]
  by (simp add: example_data_def str_small)

section \<open>Bounds read from a header are never negative\<close>

lemma digit_val_nonneg: "is_digit c \<Longrightarrow> 0 \<le> digit_val c"
  by (simp add: is_digit_def digit_val_def)

lemma int_digits_nonneg: "0 \<le> a \<Longrightarrow> int_digits a s = Some n \<Longrightarrow> 0 \<le> n"
proof (induction a s arbitrary: n rule: int_digits.induct)
  case (1 acc)
  then show ?case by simp
next
  case (2 acc c)
  then show ?case by (auto split: if_splits dest: digit_val_nonneg)
next
  case (3 acc c d cs)
  show ?case
  proof (cases "is_digit c")
    case True
    then have "0 \<le> acc * 10 + digit_val c" using "3.prems"(1) digit_val_nonneg by fastforce
    with True "3.IH"(1) "3.prems"(2) show ?thesis by simp
  next
    case False
    with "3.prems"(2) have d: "c = CHR ''_''" "is_digit d"
      and r: "int_digits (acc * 10 + digit_val d) cs = Some n"
      by (auto split: if_splits)
    have "0 \<le> acc * 10 + digit_val d" using "3.prems"(1) d(2) digit_val_nonneg by fastforce
    with False d r "3.IH"(2) show ?thesis by simp
  qed
qed

lemma int_unsigned_nonneg: "int_unsigned s = Some n \<Longrightarrow> 0 \<le> n"
  by (auto simp: int_unsigned_def split: list.splits if_splits
           dest: int_digits_nonneg [rotated] digit_val_nonneg)

lemma set_strip: "set (strip s) \<subseteq> set s"
proof -
  have "set (strip s) \<subseteq> set (dropWhile is_space s)"
    using set_dropWhileD [of _ is_space "rev (dropWhile is_space s)"] by (auto simp: strip_def)
  then show ?thesis using set_dropWhileD [of _ is_space s] by blast
qed

lemma py_int_nonneg:
  assumes "CHR ''-'' \<notin> set s" "py_int s = Inr n"
  shows "0 \<le> n"
proof -
  have m: "CHR ''-'' \<notin> set (strip s)" using assms(1) set_strip by blast
  show ?thesis
  proof (cases "strip s")
    case Nil
    with assms(2) show ?thesis by (simp add: py_int_def)
  next
    case (Cons c cs)
    with m have c: "c \<noteq> CHR ''-''" by auto
    show ?thesis
    proof (cases "c = CHR ''+''")
      case True
      with Cons c assms(2) show ?thesis
        by (auto simp: py_int_def split: option.splits dest: int_unsigned_nonneg)
    next
      case False
      with Cons c assms(2) show ?thesis
        by (auto simp: py_int_def split: option.splits dest: int_unsigned_nonneg)
    qed
  qed
qed

lemma split_not_Nil: "split sep s \<noteq> []"
  by (induction s) (auto split: list.splits)

lemma split_parts: "t \<in> set (split sep s) \<Longrightarrow> sep \<notin> set t"
proof (induction s arbitrary: t)
  case Nil
  then show ?case by simp
next
  case (Cons c s)
  show ?case
  proof (cases "c = sep")
    case True
    with Cons show ?thesis by auto
  next
    case False
    obtain u us where sp: "split sep s = u # us" using split_not_Nil by (cases "split sep s") auto
    with False Cons.prems have "t = c # u \<or> t \<in> set us" by simp
    then show ?thesis
    proof
      assume "t = c # u"
      moreover have "sep \<notin> set u" using Cons.IH [of u] sp by simp
      ultimately show ?thesis using False by auto
    next
      assume "t \<in> set us"
      then show ?thesis using Cons.IH [of t] sp by simp
    qed
  qed
qed

lemma parse_range_nonneg:
  assumes "parse_range h L = Inr (s, e)"
  shows "0 \<le> s"
proof -
  obtain m0 ms where sp: "split CHR ''-'' (str_replace ''bytes='' [] h) = m0 # ms"
    using split_not_Nil by (cases "split CHR ''-'' (str_replace ''bytes='' [] h)") auto
  have "m0 \<in> set (split CHR ''-'' (str_replace ''bytes='' [] h))" using sp by simp
  then have "CHR ''-'' \<notin> set m0" by (rule split_parts)
  moreover have "m0 = [] \<and> s = 0 \<or> py_int m0 = Inr s"
    using assms sp by (auto simp: parse_range_def split: if_splits sum.splits)
  ultimately show ?thesis using py_int_nonneg by auto
qed

section \<open>Error responses and the validation of the bounds\<close>

lemma error_head_simps [simp]:
  "status_codes (error_head E code message) = [code]"
  "status_lines (error_head E code message) = [(code, Some message)]"
  "has_cors (error_head E code message)"
  by (simp_all add: error_head_def has_cors_def)

lemma send_error_open:
  assumes "writes_left c = None" "headers_buffer c = []" "wire c = []"
    and "code = 404 \<or> code = 416 \<or> code = 500"
  shows "\<exists>c'. send_error E code message c = (None, c') \<and>
      responses (wire c') = [(error_head E code message, error_page E code message)] \<and>
      stdout c' = stdout c"
  using assms
  by (auto simp: send_error_def Let_def end_headers_open send_header_def send_response_def
      error_head_def)

lemma do_GET_unsatisfiable:
  assumes h: "h \<noteq> []"
    and p: "parse_range h (int (length data)) = Inr (s, e)"
    and b: "s \<ge> int (length data) \<or> e \<ge> int (length data) \<or> s > e"
  shows "\<exists>c'. do_GET E (File data) (Some h) (new_conn None) = Some (None, c') \<and>
      responses (wire c') =
        [(error_head E 416 ''Requested Range Not Satisfiable'',
          error_page E 416 ''Requested Range Not Satisfiable'')]"
proof -
  obtain c' where
    se: "send_error E 416 ''Requested Range Not Satisfiable'' (new_conn None) = (None, c')"
      "responses (wire c') =
        [(error_head E 416 ''Requested Range Not Satisfiable'',
          error_page E 416 ''Requested Range Not Satisfiable'')]"
    using send_error_open [of "new_conn None" 416 E "''Requested Range Not Satisfiable''"]
    by auto
  have "range_request E data h (new_conn None) = Some (None, c')"
    using p b se(1) by (auto simp: range_request_def)
  then have "do_GET E (File data) (Some h) (new_conn None) = Some (None, c')"
    using h by (simp add: do_GET_def)
  with se(2) show ?thesis by blast
qed

text \<open>
  Claim C3. Let a non-empty header parse to the bounds \<open>(start, end)\<close> on a file of length
  \<open>L\<close>, on a connection that stays open. If \<open>start \<ge> L\<close> or \<open>end \<ge> L\<close> or \<open>start > end\<close>, the
  handler returns with one response, of status 416. If \<open>start = end < L\<close>, it returns with
  one response of status 206 and Content-Length 1 whose body is the byte at \<open>start\<close>.
\<close>

theorem do_GET_validation:
  assumes "h \<noteq> []" and "parse_range h (int (length data)) = Inr (start, end')"
  shows "(start \<ge> int (length data) \<or> end' \<ge> int (length data) \<or> start > end' \<longrightarrow>
           (\<exists>c' hs body. do_GET E (File data) (Some h) (new_conn None) = Some (None, c') \<and>
              responses (wire c') = [(hs, body)] \<and> status_codes hs = [416])) \<and>
         (start = end' \<and> start < int (length data) \<longrightarrow>
           (\<exists>c' hs. do_GET E (File data) (Some h) (new_conn None) = Some (None, c') \<and>
              responses (wire c') = [(hs, [data ! nat start])] \<and> status_codes hs = [206] \<and>
              header_values ''Content-Length'' hs = [''1'']))"
proof (intro conjI impI)
  assume "start \<ge> int (length data) \<or> end' \<ge> int (length data) \<or> start > end'"
  from do_GET_unsatisfiable [OF assms this, of E]
  show "\<exists>c' hs body. do_GET E (File data) (Some h) (new_conn None) = Some (None, c') \<and>
      responses (wire c') = [(hs, body)] \<and> status_codes hs = [416]"
    using error_head_simps(1) by blast
next
  assume eq: "start = end' \<and> start < int (length data)"
  have s: "0 \<le> start" using assms(2) by (rule parse_range_nonneg)
  then have "nat start < length data" using eq by linarith
  then have "take (nat (end' - start + 1)) (drop (nat start) data) = [data ! nat start]"
    using eq by (simp add: take_Suc_conv_app_nth)
  moreover have "str (end' - start + 1) = ''1''" using eq by (simp add: str_small)
  ultimately show "\<exists>c' hs. do_GET E (File data) (Some h) (new_conn None) = Some (None, c') \<and>
      responses (wire c') = [(hs, [data ! nat start])] \<and> status_codes hs = [206] \<and>
      header_values ''Content-Length'' hs = [''1'']"
    using do_GET_partial [OF assms, of E] s eq by auto
qed

lemma parse_range_examples:
  "parse_range ''bytes=3-1'' 5 = Inr (3, 1)"
  "parse_range ''bytes=2-2'' 5 = Inr (2, 2)"
  by code_simp+

theorem do_GET_validation_witness:
  "(\<exists>c' hs body. do_GET example_env (File example_data) (Some ''bytes=3-1'') (new_conn None)
        = Some (None, c') \<and>
      responses (wire c') = [(hs, body)] \<and> status_codes hs = [416]) \<and>
   (\<exists>c' hs. do_GET example_env (File example_data) (Some ''bytes=2-2'') (new_conn None)
        = Some (None, c') \<and>
      responses (wire c') = [(hs, [12])] \<and> status_codes hs = [206] \<and>
      header_values ''Content-Length'' hs = [''1''])"
  using do_GET_validation [of "''bytes=3-1''" example_data 3 1 example_env]
    do_GET_validation [of "''bytes=2-2''" example_data 2 2 example_env]
    parse_range_examples
  by (simp add: example_data_def)

section \<open>Headers with one bound left out\<close>

lemma str_examples: "str 500 = ''500''" "str 100 = ''100''" "str 999 = ''999''"
  "str 1000 = ''1000''" "str 0 = ''0''" "str 501 = ''501''" "str 900 = ''900''"
  by code_simp+

text \<open>
  Claim C4. A header \<open>bytes=-<N>\<close>, with \<open>N\<close> in decimal, parses to the bounds \<open>(0, N)\<close>
  whatever the file length: the empty start is offset 0. So \<open>bytes=-500\<close> on a file of
  1000 bytes is the window \<open>(0, 500)\<close>, and the handler serves the first 501 bytes of the
  file, not its last 500.
\<close>

theorem parse_range_empty_start:
  "parse_range (''bytes=-'' @ str (int N)) L = Inr (0, int N) \<and>
   parse_range ''bytes=-500'' 1000 = Inr (0, 500) \<and>
   (length data = 1000 \<longrightarrow>
     (\<exists>c' hs. do_GET E (File data) (Some ''bytes=-500'') (new_conn None) = Some (None, c') \<and>
        responses (wire c') = [(hs, take 501 data)] \<and> status_codes hs = [206] \<and>
        header_values ''Content-Range'' hs = [''bytes 0-500/1000'']))"
proof (intro conjI impI)
  show "parse_range (''bytes=-'' @ str (int N)) L = Inr (0, int N)"
    using parse_range_open_start [of N L] by (simp add: str_nonneg)
  have "parse_range (''bytes=-'' @ str (int 500)) 1000 = Inr (0, int 500)"
    using parse_range_open_start [of 500 1000] by (simp add: str_nonneg)
  then show p: "parse_range ''bytes=-500'' 1000 = Inr (0, 500)"
    by (simp add: str_examples)
  assume len: "length data = 1000"
  with p have "parse_range ''bytes=-500'' (int (length data)) = Inr (0, 500)" by simp
  from do_GET_partial [OF _ this, of E] len
  show "\<exists>c' hs. do_GET E (File data) (Some ''bytes=-500'') (new_conn None) = Some (None, c') \<and>
        responses (wire c') = [(hs, take 501 data)] \<and> status_codes hs = [206] \<and>
        header_values ''Content-Range'' hs = [''bytes 0-500/1000'']"
    by (auto simp: str_examples)
qed

theorem parse_range_empty_start_witness:
  "\<exists>c' hs. do_GET example_env (File (replicate 1000 7)) (Some ''bytes=-500'') (new_conn None)
        = Some (None, c') \<and>
      responses (wire c') = [(hs, replicate 501 7)] \<and> status_codes hs = [206] \<and>
      header_values ''Content-Range'' hs = [''bytes 0-500/1000'']"
  using parse_range_empty_start [of 500 1000 "replicate 1000 7" example_env]
  by simp

text \<open>
  Claim C6. A header \<open>bytes=<start>-\<close> with \<open>0 \<le> start < L\<close> parses to the bounds
  \<open>(start, L - 1)\<close>, and the handler answers 206 with the file from offset \<open>start\<close> to its
  end. So \<open>bytes=100-\<close> on a file of 1000 bytes is answered with bytes 100 to 999.
\<close>

theorem parse_range_empty_end:
  assumes "0 \<le> start" "start < int (length data)"
  shows "parse_range (''bytes='' @ str start @ ''-'') (int (length data))
           = Inr (start, int (length data) - 1) \<and>
         (\<exists>c' hs. do_GET E (File data) (Some (''bytes='' @ str start @ ''-'')) (new_conn None)
              = Some (None, c') \<and>
            responses (wire c') = [(hs, drop (nat start) data)] \<and> status_codes hs = [206] \<and>
            header_values ''Content-Range'' hs =
              [''bytes '' @ str start @ ''-'' @ str (int (length data) - 1) @ ''/'' @
               str (int (length data))])"
proof -
  let ?h = "''bytes='' @ str start @ ''-''"
  have p: "parse_range ?h (int (length data)) = Inr (start, int (length data) - 1)"
    using assms(1) parse_range_open_end [of "nat start" "int (length data)"]
    by (simp add: str_nonneg)
  have "take (nat (int (length data) - 1 - start + 1)) (drop (nat start) data)
      = drop (nat start) data"
    using assms by simp
  then show ?thesis
    using do_GET_partial [OF _ p, of E] assms p by auto
qed

theorem parse_range_empty_end_witness:
  "parse_range ''bytes=100-'' 1000 = Inr (100, 999) \<and>
   (\<exists>c' hs. do_GET example_env (File (replicate 100 1 @ replicate 900 2)) (Some ''bytes=100-'')
         (new_conn None) = Some (None, c') \<and>
      responses (wire c') = [(hs, replicate 900 2)] \<and> status_codes hs = [206] \<and>
      header_values ''Content-Range'' hs = [''bytes 100-999/1000''])"
  using parse_range_empty_end [of 100 "replicate 100 1 @ replicate 900 2" example_env]
  by (simp add: str_examples)

section \<open>Reassembling a file from consecutive windows\<close>

lemma range_body_window:
  assumes "0 \<le> s" "s \<le> e" "e < int (length data)"
  shows "range_body E data (s, e) = Some (take (nat (e - s + 1)) (drop (nat s) data))"
proof -
  let ?h = "''bytes='' @ str s @ ''-'' @ str e"
  have "parse_range ?h (int (length data)) = Inr (s, e)"
    using assms parse_range_both [of "nat s" "nat e"] by (simp add: str_nonneg)
  from do_GET_partial [OF _ this assms, of E] obtain c' hs where
    "do_GET E (File data) (Some ?h) (new_conn None) = Some (None, c')"
    "responses (wire c') = [(hs, take (nat (e - s + 1)) (drop (nat s) data))]"
    "status_codes hs = [206]"
    by auto
  then show ?thesis by (simp add: range_body_def)
qed

lemma covers_bodies:
  "covers a ws (int (length data)) \<Longrightarrow> 0 \<le> a \<Longrightarrow>
   \<exists>bodies. map (range_body E data) ws = map Some bodies \<and> concat bodies = drop (nat a) data"
proof (induction ws arbitrary: a)
  case Nil
  then show ?case by simp
next
  case (Cons w ws)
  obtain s e where w: "w = (s, e)" by (cases w)
  with Cons.prems have b: "s = a" "s \<le> e" "e < int (length data)"
    and rest: "covers (e + 1) ws (int (length data))"
    by simp_all
  have s0: "0 \<le> s" using b(1) Cons.prems(2) by simp
  from Cons.IH [OF rest] s0 b(2) obtain bodies where
    ih: "map (range_body E data) ws = map Some bodies" "concat bodies = drop (nat (e + 1)) data"
    by auto
  let ?n = "nat (e - s + 1)"
  let ?b = "take ?n (drop (nat s) data)"
  have "nat (e + 1) = ?n + nat s" using s0 b(2) by linarith
  then have "drop (nat (e + 1)) data = drop ?n (drop (nat s) data)" by simp
  then have "concat (?b # bodies) = ?b @ drop ?n (drop (nat s) data)"
    using ih(2) by simp
  also have "\<dots> = drop (nat s) data" by (rule append_take_drop_id)
  finally have "concat (?b # bodies) = drop (nat a) data" using b(1) by simp
  moreover have "map (range_body E data) (w # ws) = map Some (?b # bodies)"
    using ih(1) w range_body_window [OF s0 b(2,3), of E] by simp
  ultimately show ?case by blast
qed

text \<open>
  Claim C9. Let the windows \<open>(0, e\<^sub>0), (e\<^sub>0 + 1, e\<^sub>1), \<dots>, (_, L - 1)\<close> split a file of length
  \<open>L\<close> into consecutive non-empty pieces. Each window, requested as \<open>bytes=<s>-<e>\<close> on a
  connection that stays open, is answered with one 206 response, and the bodies of these
  responses, put together in the order of the windows, are the file.
\<close>

theorem range_bodies_reassemble:
  assumes "covers 0 ws (int (length data))"
  shows "\<exists>bodies. map (range_body E data) ws = map Some bodies \<and> concat bodies = data"
  using covers_bodies [OF assms, of E] by simp

theorem range_bodies_reassemble_witness:
  "\<exists>bodies. map (range_body example_env example_data) [(0, 1), (2, 4)] = map Some bodies \<and>
      concat bodies = example_data"
  using range_bodies_reassemble [of "[(0, 1), (2, 4)]" example_data example_env]
  by (simp add: example_data_def)

section \<open>The CORS headers\<close>

lemma heads_append [simp]: "heads (xs @ ys) = heads xs @ heads ys"
  by (induction xs rule: heads.induct) simp_all

lemma heads_map_Data [simp]: "heads (map Data chunks) = []"
  by (induction chunks) simp_all

lemma map_fst_responses: "map fst (responses ws) = heads ws"
  by (induction ws rule: responses.induct) simp_all

lemma send_header_wire [simp]: "wire (send_header k v c) = wire c"
  by (simp add: send_header_def)

lemma send_response_wire [simp]: "wire (send_response E code m c) = wire c"
  by (simp add: send_response_def)

lemma wfile_write_Data_heads:
  "wfile_write (Data d) c = (ex, c') \<Longrightarrow> heads (wire c') = heads (wire c)"
  by (drule wfile_write_cases) auto

lemma end_headers_heads:
  assumes "end_headers c = (ex, c')" "list_all has_cors (heads (wire c))"
  shows "list_all has_cors (heads (wire c'))"
proof -
  define c0 where "c0 = send_header ''Access-Control-Allow-Headers'' ''Range''
         (send_header ''Access-Control-Allow-Methods'' ''GET, OPTIONS''
           (send_header ''Access-Control-Allow-Origin'' ''*'' c))"
  have w0: "wire c0 = wire c" by (simp add: c0_def)
  have hc: "has_cors (headers_buffer c0)"
    by (simp add: c0_def send_header_def has_cors_def)
  obtain e1 c1 where w: "wfile_write (Head (headers_buffer c0)) c0 = (e1, c1)" by fastforce
  from wfile_write_cases [OF w]
  have "heads (wire c1) = heads (wire c) \<or> heads (wire c1) = heads (wire c) @ [headers_buffer c0]"
    using w0 by auto
  then have i1: "list_all has_cors (heads (wire c1))" using hc assms(2) by auto
  have "wire c' = wire c1"
    using assms(1) w by (auto simp: end_headers_def flush_headers_def c0_def split: option.splits)
  with i1 show ?thesis by simp
qed

lemma send_error_heads:
  assumes "send_error E code message c = (ex, c')" "list_all has_cors (heads (wire c))"
  shows "list_all has_cors (heads (wire c'))"
proof -
  define c2 where "c2 =
    (if code \<ge> 200 \<and> code \<noteq> 204 \<and> code \<noteq> 205 \<and> code \<noteq> 304
     then send_header ''Content-Length''
            (str (int (length (if code \<ge> 200 \<and> code \<noteq> 204 \<and> code \<noteq> 205 \<and> code \<noteq> 304
                               then error_page E code message else []))))
            (send_header ''Content-Type'' ''text/html;charset=utf-8''
              (send_header ''Connection'' ''close'' (send_response E code (Some message) c)))
     else send_header ''Connection'' ''close'' (send_response E code (Some message) c))"
  have w2: "wire c2 = wire c" by (simp add: c2_def)
  obtain e3 c3 where eh: "end_headers c2 = (e3, c3)" by fastforce
  have i3: "list_all has_cors (heads (wire c3))"
    using end_headers_heads [OF eh] assms(2) w2 by simp
  have "heads (wire c') = heads (wire c3)"
    using assms(1) eh wfile_write_Data_heads
    by (auto simp: send_error_def Let_def c2_def split: option.splits if_splits)
  with i3 show ?thesis by simp
qed

lemma stream_loop_heads:
  "\<exists>ex c'. stream_loop f n c = Some (ex, c') \<and> heads (wire c') = heads (wire c)"
  using stream_loop_total [of f n c] by auto

lemma range_request_heads:
  assumes "list_all has_cors (heads (wire c))"
  shows "\<exists>ex c'. range_request E data h c = Some (ex, c') \<and> list_all has_cors (heads (wire c'))"
proof (cases "parse_range h (int (length data))")
  case (Inl e)
  with assms show ?thesis by (simp add: range_request_def)
next
  case (Inr w)
  obtain s e where w: "w = (s, e)" by (cases w)
  show ?thesis
  proof (cases "s \<ge> int (length data) \<or> e \<ge> int (length data) \<or> s > e")
    case True
    obtain ex c' where se: "send_error E 416 ''Requested Range Not Satisfiable'' c = (ex, c')"
      by fastforce
    with True Inr w have "range_request E data h c = Some (ex, c')"
      by (auto simp: range_request_def)
    with send_error_heads [OF se assms] show ?thesis by blast
  next
    case False
    define c0 where "c0 = send_header ''Access-Control-Allow-Origin'' ''*''
       (send_header ''Accept-Ranges'' ''bytes''
         (send_header ''Content-Range''
             (''bytes '' @ str s @ ''-'' @ str e @ ''/'' @ str (int (length data)))
           (send_header ''Content-Length'' (str (e - s + 1))
             (send_header ''Content-Type'' (guess_type E)
               (send_response E 206 None c)))))"
    have "wire c0 = wire c" by (simp add: c0_def)
    obtain e1 c1 where eh: "end_headers c0 = (e1, c1)" by fastforce
    have i1: "list_all has_cors (heads (wire c1))"
      using end_headers_heads [OF eh] assms \<open>wire c0 = wire c\<close> by simp
    have rr: "range_request E data h c =
      (case e1 of Some x \<Rightarrow> Some (Some x, c1)
       | None \<Rightarrow> (case seek s (open_rb data) of Inl x \<Rightarrow> Some (Some x, c1)
                  | Inr f \<Rightarrow> stream_loop f (e - s + 1) c1))"
      using False Inr w eh unfolding c0_def
      by (simp add: range_request_def split: option.splits)
    show ?thesis
    proof (cases e1)
      case (Some x)
      with rr i1 show ?thesis by simp
    next
      case None
      show ?thesis
      proof (cases "seek s (open_rb data)")
        case (Inl x)
        with rr None i1 show ?thesis by simp
      next
        case (Inr f)
        with rr None have "range_request E data h c = stream_loop f (e - s + 1) c1" by simp
        with stream_loop_heads [of f "e - s + 1" c1] i1 show ?thesis by auto
      qed
    qed
  qed
qed

lemma do_GET_heads:
  "\<exists>ex c'. do_GET E res rh (new_conn w) = Some (ex, c') \<and> list_all has_cors (heads (wire c'))"
proof (cases res)
  case Missing
  obtain ex c' where se: "send_error E 404 ''File not found'' (new_conn w) = (ex, c')"
    by fastforce
  from send_error_heads [OF se] Missing se show ?thesis by (simp add: do_GET_def)
next
  case (Directory code hs body)
  define c0 where "c0 = foldl (\<lambda>c' (k, v). send_header k v c') (send_response E code None (new_conn w)) hs"
  have "wire (foldl (\<lambda>c' (k, v). send_header k v c') c hs) = wire c" for c
    by (induction hs arbitrary: c) (simp_all add: case_prod_beta)
  then have w0: "wire c0 = []" by (simp add: c0_def)
  obtain e1 c1 where eh: "end_headers c0 = (e1, c1)" by fastforce
  have i1: "list_all has_cors (heads (wire c1))"
    using end_headers_heads [OF eh] w0 by simp
  obtain ex c' where b: "base_do_GET E code hs body (new_conn w) = (ex, c')" by fastforce
  then have "heads (wire c') = heads (wire c1)"
    using eh wfile_write_Data_heads unfolding base_do_GET_def c0_def [symmetric]
    by (auto split: option.splits if_splits)
  with i1 b Directory show ?thesis by (simp add: do_GET_def)
next
  case (File data)
  show ?thesis
  proof (cases "rh \<noteq> None \<and> rh \<noteq> Some []")
    case True
    then obtain h where h: "rh = Some h" "h \<noteq> []" by auto
    obtain e1 c1 where rr: "range_request E data h (new_conn w) = Some (e1, c1)"
      and i1: "list_all has_cors (heads (wire c1))"
      using range_request_heads [of "new_conn w" E data h] by auto
    show ?thesis
    proof (cases e1)
      case None
      with h File rr i1 show ?thesis by (simp add: do_GET_def)
    next
      case (Some x)
      define c2 where "c2 = c1\<lparr>stdout := stdout c1 @
          [''Error processing range request: '' @ str_exn E x]\<rparr>"
      obtain ex c' where se: "send_error E 500 (str_exn E x) c2 = (ex, c')" by fastforce
      have "list_all has_cors (heads (wire c2))" using i1 by (simp add: c2_def)
      from send_error_heads [OF se this] h File rr Some se show ?thesis
        by (simp add: do_GET_def c2_def)
    qed
  next
    case False
    define c0 where "c0 = send_header ''Access-Control-Allow-Origin'' ''*''
       (send_header ''Accept-Ranges'' ''bytes''
         (send_header ''Content-Length'' (str (int (length data)))
           (send_header ''Content-Type'' (guess_type E)
             (send_response E 200 None (new_conn w)))))"
    have w0: "wire c0 = []" by (simp add: c0_def)
    obtain e1 c1 where eh: "end_headers c0 = (e1, c1)" by fastforce
    have i1: "list_all has_cors (heads (wire c1))"
      using end_headers_heads [OF eh] w0 by simp
    obtain e2 c2 where wr: "wfile_write (Data (fst (read (- 1) (open_rb data)))) c1 = (e2, c2)"
      by fastforce
    have i2: "list_all has_cors (heads (wire c2))"
      using wfile_write_Data_heads [OF wr] i1 by simp
    have "full_request E data (new_conn w) =
        (case e1 of Some x \<Rightarrow> (Some x, c1) | None \<Rightarrow> (e2, c2))"
      using eh wr unfolding c0_def
      by (auto simp: full_request_def Let_def split: option.splits)
    moreover have "do_GET E res rh (new_conn w) = Some (full_request E data (new_conn w))"
      using False File by (cases rh) (auto simp: do_GET_def)
    ultimately show ?thesis using i1 i2 by (cases e1) simp_all
  qed
qed

lemma do_OPTIONS_heads:
  "do_OPTIONS E (new_conn w) = (ex, c') \<Longrightarrow> list_all has_cors (heads (wire c'))"
  unfolding do_OPTIONS_def by (drule end_headers_heads) simp_all

lemma do_GET_open_responds:
  "\<exists>ex c'. do_GET E res rh (new_conn None) = Some (ex, c') \<and> responses (wire c') \<noteq> []"
proof (cases res)
  case Missing
  from send_error_open [of "new_conn None" 404 E "''File not found''"] Missing
  show ?thesis by (auto simp: do_GET_def)
next
  case (Directory code hs body)
  define c0 where "c0 = foldl (\<lambda>c' (k, v). send_header k v c') (send_response E code None (new_conn None)) hs"
  have "writes_left (foldl (\<lambda>c' (k, v). send_header k v c') c hs) = writes_left c" for c
    by (induction hs arbitrary: c) (simp_all add: case_prod_beta)
  then have w0: "writes_left c0 = None" by (simp add: c0_def)
  define c1 where "c1 = c0\<lparr>headers_buffer := [], wire := wire c0 @
      [Head (headers_buffer c0 @
         [HeaderLine ''Access-Control-Allow-Origin'' ''*'',
          HeaderLine ''Access-Control-Allow-Methods'' ''GET, OPTIONS'',
          HeaderLine ''Access-Control-Allow-Headers'' ''Range''])]\<rparr>"
  have eh: "end_headers c0 = (None, c1)" using end_headers_open [OF w0] by (simp add: c1_def)
  have c1: "writes_left c1 = None" "heads (wire c1) \<noteq> []" using w0 by (simp_all add: c1_def)
  have "base_do_GET E code hs body (new_conn None) =
      (case end_headers c0 of
         (Some e, c1) \<Rightarrow> (Some e, c1)
       | (None, c1) \<Rightarrow> if body \<noteq> [] then wfile_write (Data body) c1 else (None, c1))"
    by (simp add: base_do_GET_def c0_def)
  then obtain ex c' where "base_do_GET E code hs body (new_conn None) = (ex, c')"
    "heads (wire c') \<noteq> []"
    using c1 by (cases "body = []") (simp_all add: eh)
  then have "base_do_GET E code hs body (new_conn None) = (ex, c')" "responses (wire c') \<noteq> []"
    using map_fst_responses [of "wire c'"] by auto
  with Directory show ?thesis by (simp add: do_GET_def)
next
  case (File data)
  show ?thesis
  proof (cases "rh \<noteq> None \<and> rh \<noteq> Some []")
    case False
    have "\<exists>ex c'. full_request E data (new_conn None) = (ex, c') \<and> responses (wire c') \<noteq> []"
      by (simp add: full_request_def end_headers_open send_header_def send_response_def)
    with False File show ?thesis
      by (cases rh) (auto simp: do_GET_def)
  next
    case True
    then obtain h where h: "rh = Some h" "h \<noteq> []" by auto
    show ?thesis
    proof (cases "parse_range h (int (length data))")
      case (Inl x)
      define c2 where "c2 = (new_conn None)\<lparr>stdout :=
          [''Error processing range request: '' @ str_exn E x]\<rparr>"
      have rr: "range_request E data h (new_conn None) = Some (Some x, new_conn None)"
        using Inl by (simp add: range_request_def)
      have "writes_left c2 = None" "headers_buffer c2 = []" "wire c2 = []"
        by (simp_all add: c2_def)
      from send_error_open [OF this, of 500 E "str_exn E x"] rr h File
      show ?thesis by (auto simp: do_GET_def c2_def)
    next
      case (Inr w)
      obtain s e where w: "w = (s, e)" by (cases w)
      show ?thesis
      proof (cases "s \<ge> int (length data) \<or> e \<ge> int (length data) \<or> s > e")
        case True
        from do_GET_unsatisfiable [OF h(2) Inr [unfolded w] True, of E] h File
        show ?thesis by auto
      next
        case False
        have "0 \<le> s" using Inr [unfolded w] by (rule parse_range_nonneg)
        with do_GET_partial [OF h(2) Inr [unfolded w], of E] False h File
        show ?thesis by auto
      qed
    qed
  qed
qed

text \<open>
  Claim C7. Whatever the request names (nothing, a directory, a file), whatever Range
  header it carries and however long the client stays, \<^verbatim>\<open>do_GET\<close> returns and every
  response it has put on the wire carries the three CORS headers; so does the response of
  \<^verbatim>\<open>do_OPTIONS\<close>. With a client that stays, \<^verbatim>\<open>do_GET\<close> sends at least one response, and
  \<^verbatim>\<open>do_OPTIONS\<close> exactly one, of status 200 and without a body.
\<close>

theorem cors_on_every_response:
  "(\<exists>ex c'. do_GET E res rh (new_conn w) = Some (ex, c') \<and>
      list_all has_cors (map fst (responses (wire c')))) \<and>
   (\<exists>ex c'. do_GET E res rh (new_conn None) = Some (ex, c') \<and> responses (wire c') \<noteq> []) \<and>
   (\<exists>ex c'. do_OPTIONS E (new_conn w) = (ex, c') \<and>
      list_all has_cors (map fst (responses (wire c')))) \<and>
   (\<exists>c' hs. do_OPTIONS E (new_conn None) = (None, c') \<and>
      responses (wire c') = [(hs, [])] \<and> status_codes hs = [200])"
proof (intro conjI)
  show "\<exists>ex c'. do_GET E res rh (new_conn w) = Some (ex, c') \<and>
      list_all has_cors (map fst (responses (wire c')))"
    using do_GET_heads [of E res rh w] by (simp add: map_fst_responses)
  show "\<exists>ex c'. do_GET E res rh (new_conn None) = Some (ex, c') \<and> responses (wire c') \<noteq> []"
    by (rule do_GET_open_responds)
  obtain ex c' where o: "do_OPTIONS E (new_conn w) = (ex, c')" by fastforce
  with do_OPTIONS_heads [OF o]
  show "\<exists>ex c'. do_OPTIONS E (new_conn w) = (ex, c') \<and>
      list_all has_cors (map fst (responses (wire c')))"
    by (simp add: map_fst_responses)
  show "\<exists>c' hs. do_OPTIONS E (new_conn None) = (None, c') \<and>
      responses (wire c') = [(hs, [])] \<and> status_codes hs = [200]"
    by (simp add: do_OPTIONS_def end_headers_open send_header_def send_response_def)
qed

section \<open>Headers that do not parse\<close>

lemma do_GET_malformed:
  assumes "h \<noteq> []" and "parse_range h (int (length data)) = Inl e"
  shows "\<exists>c'. do_GET E (File data) (Some h) (new_conn None) = Some (None, c') \<and>
      responses (wire c') = [(error_head E 500 (str_exn E e), error_page E 500 (str_exn E e))] \<and>
      stdout c' = [''Error processing range request: '' @ str_exn E e]"
proof -
  define c2 where "c2 = (new_conn None)\<lparr>stdout :=
      [''Error processing range request: '' @ str_exn E e]\<rparr>"
  have rr: "range_request E data h (new_conn None) = Some (Some e, new_conn None)"
    using assms(2) by (simp add: range_request_def)
  have "writes_left c2 = None" "headers_buffer c2 = []" "wire c2 = []"
    by (simp_all add: c2_def)
  from send_error_open [OF this, of 500 E "str_exn E e"] rr assms(1)
  show ?thesis by (auto simp: do_GET_def c2_def)
qed

text \<open>
  Claim C2, as the code has it. Take a non-empty header value, delete every \<open>bytes=\<close> in it
  and split the rest at \<open>-\<close>. If the first part is non-empty and \<^verbatim>\<open>int()\<close> rejects it, or
  if the first part is empty or an integer and there is a second part, non-empty, that
  \<^verbatim>\<open>int()\<close> rejects, then the handler (on a connection that stays open) returns with one
  response and no other: status 500, with the text of the \<^verbatim>\<open>ValueError\<close> in the status
  line and in the error page.
\<close>

theorem malformed_range_is_500:
  assumes "h \<noteq> []"
    and "split CHR ''-'' (str_replace ''bytes='' [] h) = m0 # ms"
    and "(m0 \<noteq> [] \<and> py_int m0 = Inl e) \<or>
         ((m0 = [] \<or> (\<exists>n. py_int m0 = Inr n)) \<and>
          (\<exists>m1 ms'. ms = m1 # ms' \<and> m1 \<noteq> [] \<and> py_int m1 = Inl e))"
  shows "\<exists>c' hs. do_GET E (File data) (Some h) (new_conn None) = Some (None, c') \<and>
      responses (wire c') = [(hs, error_page E 500 (str_exn E e))] \<and>
      status_lines hs = [(500, Some (str_exn E e))]"
proof -
  have "parse_range h (int (length data)) = Inl e"
    using assms(2,3) by (auto simp: parse_range_def)
  from do_GET_malformed [OF assms(1) this, of E] show ?thesis
    using error_head_simps(2) by blast
qed

lemma malformed_example:
  "split CHR ''-'' (str_replace ''bytes='' [] ''bytes=abc-def'') = [''abc'', ''def'']"
  "py_int ''abc'' = Inl (ValueError ''abc'')"
  by code_simp+

theorem malformed_range_is_500_witness:
  "\<exists>c' hs. do_GET example_env (File example_data) (Some ''bytes=abc-def'') (new_conn None)
        = Some (None, c') \<and>
      responses (wire c')
        = [(hs, error_page example_env 500 (str_exn example_env (ValueError ''abc'')))] \<and>
      status_lines hs = [(500, Some (str_exn example_env (ValueError ''abc'')))]"
  using malformed_range_is_500 [of "''bytes=abc-def''" "''abc''" "[''def'']" "ValueError ''abc''"
      example_env example_data]
  by (simp add: malformed_example)

text \<open>
  Four headers that the claim as written would have rejected: one without the prefix, one
  with a single part, one with three parts of which the third is no number, and the empty
  value. The first three are answered 206, the last 200 with the whole file.
\<close>

lemma lenient_examples:
  "parse_range ''1-3'' 5 = Inr (1, 3)"
  "parse_range ''bytes=3'' 5 = Inr (3, 4)"
  "parse_range ''bytes=1-3-x'' 5 = Inr (1, 3)"
  by code_simp+

theorem malformed_range_counterexample:
  "outcome (do_GET example_env (File example_data) (Some ''1-3'') (new_conn None))
     = Some (None, [([206], [11, 12, 13])]) \<and>
   outcome (do_GET example_env (File example_data) (Some ''bytes=3'') (new_conn None))
     = Some (None, [([206], [13, 14])]) \<and>
   outcome (do_GET example_env (File example_data) (Some ''bytes=1-3-x'') (new_conn None))
     = Some (None, [([206], [11, 12, 13])]) \<and>
   outcome (do_GET example_env (File example_data) (Some '''') (new_conn None))
     = Some (None, [([200], [10, 11, 12, 13, 14])])"
proof (intro conjI)
  show "outcome (do_GET example_env (File example_data) (Some ''1-3'') (new_conn None))
     = Some (None, [([206], [11, 12, 13])])"
    using do_GET_partial [of "''1-3''" example_data 1 3 example_env] lenient_examples(1)
    by (auto simp: outcome_def example_data_def)
  show "outcome (do_GET example_env (File example_data) (Some ''bytes=3'') (new_conn None))
     = Some (None, [([206], [13, 14])])"
    using do_GET_partial [of "''bytes=3''" example_data 3 4 example_env] lenient_examples(2)
    by (auto simp: outcome_def example_data_def)
  show "outcome (do_GET example_env (File example_data) (Some ''bytes=1-3-x'') (new_conn None))
     = Some (None, [([206], [11, 12, 13])])"
    using do_GET_partial [of "''bytes=1-3-x''" example_data 1 3 example_env] lenient_examples(3)
    by (auto simp: outcome_def example_data_def)
  show "outcome (do_GET example_env (File example_data) (Some '''') (new_conn None))
     = Some (None, [([200], [10, 11, 12, 13, 14])])"
    by (simp add: outcome_def do_GET_def full_request_def end_headers_open send_header_def
        send_response_def read_def open_rb_def example_data_def Let_def)
qed

section \<open>A client that goes away during the transfer\<close>

lemma stream_loop_broken:
  "writes_left c = Some j \<Longrightarrow> int j * chunk_size < n \<Longrightarrow>
   pos f + nat n \<le> length (content f) \<Longrightarrow>
   \<exists>chunks. stream_loop f n c =
       Some (Some broken_pipe, c\<lparr>wire := wire c @ map Data chunks, writes_left := Some 0\<rparr>) \<and>
     concat chunks = take (j * nat chunk_size) (drop (pos f) (content f))"
proof (induction j arbitrary: f n c)
  case 0
  then have n: "0 < n" by simp
  define k where "k = nat (min chunk_size n)"
  define xs where "xs = drop (pos f) (content f)"
  define chunk where "chunk = take k xs"
  define f' where "f' = f\<lparr>pos := pos f + length chunk\<rparr>"
  have k: "0 < k" "k \<le> nat n" using n by (simp_all add: k_def chunk_size_def)
  have "k \<le> length xs" using k(2) "0.prems"(3) by (simp add: xs_def)
  then have len: "length chunk = k" by (simp add: chunk_def)
  have r: "read (min chunk_size n) f = (chunk, f')"
    using n by (simp add: read_def Let_def chunk_size_def chunk_def xs_def k_def f'_def)
  have ne: "chunk \<noteq> []" using len k(1) by auto
  have w: "wfile_write (Data chunk) c = (Some broken_pipe, c)"
    using "0.prems"(1) by (simp add: wfile_write_def)
  have "stream_loop f n c = Some (Some broken_pipe, c)"
    using n r ne w by (subst stream_loop.simps) simp
  moreover have "c\<lparr>wire := wire c @ map Data [], writes_left := Some 0\<rparr> = c"
    using "0.prems"(1) by simp
  ultimately show ?case by (intro exI [of _ "[]"]) simp
next
  case (Suc j)
  define k where "k = nat chunk_size"
  define xs where "xs = drop (pos f) (content f)"
  define chunk where "chunk = take k xs"
  define f' where "f' = f\<lparr>pos := pos f + length chunk\<rparr>"
  define c1 where "c1 = c\<lparr>wire := wire c @ [Data chunk], writes_left := Some j\<rparr>"
  define n' where "n' = n - int k"
  have big: "chunk_size < n" "int j * chunk_size < n - chunk_size"
    using Suc.prems(2) by (simp_all add: chunk_size_def algebra_simps)
  then have m: "min chunk_size n = chunk_size" by simp
  have k: "0 < k" "int k = chunk_size" "k \<le> nat n"
    using big by (simp_all add: k_def chunk_size_def)
  have "k \<le> length xs" using k(3) Suc.prems(3) by (simp add: xs_def)
  then have len: "length chunk = k" by (simp add: chunk_def)
  have n0: "0 < n" using big by (simp add: chunk_size_def)
  have r: "read chunk_size f = (chunk, f')"
    by (simp add: read_def Let_def chunk_size_def chunk_def xs_def k_def f'_def)
  have ne: "chunk \<noteq> []" using len k(1) by auto
  have w: "wfile_write (Data chunk) c = (None, c1)"
    using Suc.prems(1) by (simp add: wfile_write_def c1_def)
  have step: "stream_loop f n c = stream_loop f' n' c1"
    using n0 r ne w len by (subst stream_loop.simps) (simp add: n'_def m)
  have "writes_left c1 = Some j" by (simp add: c1_def)
  moreover have "int j * chunk_size < n'" using big(2) k(2) by (simp add: n'_def)
  moreover have "pos f' + nat n' \<le> length (content f')"
  proof -
    have "nat n' = nat n - k" by (simp add: n'_def nat_diff_distrib')
    then show ?thesis using len k(3) Suc.prems(3) by (simp add: f'_def)
  qed
  ultimately obtain chunks where
    ih: "stream_loop f' n' c1 =
        Some (Some broken_pipe, c1\<lparr>wire := wire c1 @ map Data chunks, writes_left := Some 0\<rparr>)"
      "concat chunks = take (j * nat chunk_size) (drop (pos f') (content f'))"
    using Suc.IH [of c1 n' f'] by blast
  have "drop (pos f') (content f') = drop k xs"
    by (simp add: f'_def xs_def len add.commute)
  then have "concat (chunk # chunks) = take k xs @ take (j * k) (drop k xs)"
    using ih(2) by (simp add: chunk_def k_def)
  also have "\<dots> = take (k + j * k) xs" by (simp add: take_add)
  finally have "concat (chunk # chunks) = take (Suc j * nat chunk_size) (drop (pos f) (content f))"
    by (simp add: k_def xs_def)
  moreover have "stream_loop f n c =
      Some (Some broken_pipe,
            c\<lparr>wire := wire c @ map Data (chunk # chunks), writes_left := Some 0\<rparr>)"
    using step ih(1) by (simp add: c1_def)
  ultimately show ?case by blast
qed

lemma end_headers_taken:
  "writes_left c = Some (Suc j) \<Longrightarrow>
   end_headers c =
     (None, c\<lparr>headers_buffer := [],
             wire := wire c @
               [Head (headers_buffer c @
                  [HeaderLine ''Access-Control-Allow-Origin'' ''*'',
                   HeaderLine ''Access-Control-Allow-Methods'' ''GET, OPTIONS'',
                   HeaderLine ''Access-Control-Allow-Headers'' ''Range''])],
             writes_left := Some j\<rparr>)"
  by (simp add: end_headers_def flush_headers_def send_header_def wfile_write_def)

lemma send_error_broken:
  assumes "writes_left c = Some 0" "headers_buffer c = []"
  shows "send_error E 500 message c
      = (Some broken_pipe, c\<lparr>headers_buffer := error_head E 500 message\<rparr>)"
  using assms
  by (simp add: send_error_def Let_def end_headers_def flush_headers_def send_header_def
      send_response_def wfile_write_def error_head_def)

lemma do_GET_broken:
  assumes h: "h \<noteq> []"
    and p: "parse_range h (int (length data)) = Inr (s, e)"
    and b: "s \<le> e" "e < int (length data)"
    and j: "int j * chunk_size < e - s + 1"
  shows "\<exists>c' hs. do_GET E (File data) (Some h) (new_conn (Some (Suc j)))
        = Some (Some broken_pipe, c') \<and>
      responses (wire c') = [(hs, take (j * nat chunk_size) (drop (nat s) data))] \<and>
      status_codes hs = [206] \<and>
      stdout c' = [''Error processing range request: '' @ str_exn E broken_pipe] \<and>
      headers_buffer c' = error_head E 500 (str_exn E broken_pipe)"
proof -
  have s0: "0 \<le> s" using p by (rule parse_range_nonneg)
  define hs where "hs =
    [StatusLine 206 None, HeaderLine ''Server'' (version_string E),
     HeaderLine ''Date'' (date_time_string E),
     HeaderLine ''Content-Type'' (guess_type E),
     HeaderLine ''Content-Length'' (str (e - s + 1)),
     HeaderLine ''Content-Range''
       (''bytes '' @ str s @ ''-'' @ str e @ ''/'' @ str (int (length data))),
     HeaderLine ''Accept-Ranges'' ''bytes'',
     HeaderLine ''Access-Control-Allow-Origin'' ''*'',
     HeaderLine ''Access-Control-Allow-Origin'' ''*'',
     HeaderLine ''Access-Control-Allow-Methods'' ''GET, OPTIONS'',
     HeaderLine ''Access-Control-Allow-Headers'' ''Range'']"
  define c1 where "c1 = \<lparr>headers_buffer = [], wire = [Head hs], writes_left = Some j, stdout = []\<rparr>"
  define f where "f = \<lparr>content = data, pos = nat s\<rparr>"
  have eh: "end_headers
       (send_header ''Access-Control-Allow-Origin'' ''*''
         (send_header ''Accept-Ranges'' ''bytes''
           (send_header ''Content-Range''
               (''bytes '' @ str s @ ''-'' @ str e @ ''/'' @ str (int (length data)))
             (send_header ''Content-Length'' (str (e - s + 1))
               (send_header ''Content-Type'' (guess_type E)
                 (send_response E 206 None (new_conn (Some (Suc j))))))))) = (None, c1)"
    by (simp add: end_headers_taken send_header_def send_response_def new_conn_def c1_def hs_def)
  have sk: "seek s (open_rb data) = Inr f"
    using s0 by (simp add: seek_def open_rb_def f_def)
  have "writes_left c1 = Some j" by (simp add: c1_def)
  moreover have "pos f + nat (e - s + 1) \<le> length (content f)"
    using b s0 by (simp add: f_def)
  ultimately obtain chunks where
    lp: "stream_loop f (e - s + 1) c1 =
        Some (Some broken_pipe, c1\<lparr>wire := wire c1 @ map Data chunks, writes_left := Some 0\<rparr>)"
      "concat chunks = take (j * nat chunk_size) (drop (pos f) (content f))"
    using stream_loop_broken [of c1 j "e - s + 1" f] j by blast
  define c2 where "c2 = c1\<lparr>wire := wire c1 @ map Data chunks, writes_left := Some 0\<rparr>"
  define c3 where "c3 = c2\<lparr>stdout := stdout c2 @
      [''Error processing range request: '' @ str_exn E broken_pipe]\<rparr>"
  have rr: "range_request E data h (new_conn (Some (Suc j))) = Some (Some broken_pipe, c2)"
    using p b lp(1) eh sk by (simp add: range_request_def c2_def)
  have "writes_left c3 = Some 0" "headers_buffer c3 = []"
    by (simp_all add: c3_def c2_def c1_def)
  note se = send_error_broken [OF this, of E "str_exn E broken_pipe"]
  have "do_GET E (File data) (Some h) (new_conn (Some (Suc j)))
      = Some (Some broken_pipe, c3\<lparr>headers_buffer := error_head E 500 (str_exn E broken_pipe)\<rparr>)"
    using h rr se by (simp add: do_GET_def c3_def)
  moreover have "responses (wire (c3\<lparr>headers_buffer := error_head E 500 (str_exn E broken_pipe)\<rparr>))
      = [(hs, take (j * nat chunk_size) (drop (nat s) data))]"
    using lp(2) by (simp add: c3_def c2_def c1_def f_def)
  moreover have "status_codes hs = [206]" by (simp add: hs_def)
  moreover have "stdout (c3\<lparr>headers_buffer := error_head E 500 (str_exn E broken_pipe)\<rparr>)
      = [''Error processing range request: '' @ str_exn E broken_pipe]"
    by (simp add: c3_def c2_def c1_def)
  ultimately show ?thesis by auto
qed

text \<open>
  Claim C8, as the code has it. Let a non-empty header parse to a window \<open>start \<le> end < L\<close>,
  and let the client take the head of the 206 response and \<open>j\<close> chunks of 8192 bytes, fewer
  than the window holds, and then be gone. The write of the next chunk raises and ends the
  loop: nothing more of the file is sent, the client has the 206 head and the first
  \<open>8192 * j\<close> bytes of the window. The exception is caught by the \<^verbatim>\<open>except\<close> clause of
  \<^verbatim>\<open>do_GET\<close>, which prints it and calls \<^verbatim>\<open>send_error(500, \<dots>)\<close>; the head of that response
  cannot be written either, stays in the header buffer, and the exception of this second
  failed write leaves \<^verbatim>\<open>do_GET\<close>.
\<close>

theorem broken_pipe_while_streaming:
  assumes "h \<noteq> []"
    and "parse_range h (int (length data)) = Inr (start, end')"
    and "start \<le> end'" "end' < int (length data)"
    and "int j * 8192 < end' - start + 1"
  shows "\<exists>c' hs. do_GET E (File data) (Some h) (new_conn (Some (Suc j)))
        = Some (Some broken_pipe, c') \<and>
      responses (wire c') = [(hs, take (j * 8192) (drop (nat start) data))] \<and>
      status_codes hs = [206] \<and>
      stdout c' = [''Error processing range request: [Errno 32] Broken pipe''] \<and>
      status_lines (headers_buffer c') = [(500, Some ''[Errno 32] Broken pipe'')]"
proof -
  have "int j * chunk_size < end' - start + 1" using assms(5) by (simp add: chunk_size_def)
  from do_GET_broken [OF assms(1-4) this, of E] show ?thesis
    by (auto simp: chunk_size_def broken_pipe_def)
qed

lemma broken_examples:
  "parse_range ''bytes=0-9999'' 10000 = Inr (0, 9999)"
  "parse_range ''bytes=0-4'' 5 = Inr (0, 4)"
  by code_simp+

theorem broken_pipe_while_streaming_witness:
  "\<exists>c' hs. do_GET example_env (File (replicate 10000 7)) (Some ''bytes=0-9999'')
         (new_conn (Some 2)) = Some (Some broken_pipe, c') \<and>
      responses (wire c') = [(hs, replicate 8192 7)] \<and>
      status_codes hs = [206] \<and>
      stdout c' = [''Error processing range request: [Errno 32] Broken pipe''] \<and>
      status_lines (headers_buffer c') = [(500, Some ''[Errno 32] Broken pipe'')]"
  using broken_pipe_while_streaming [of "''bytes=0-9999''" "replicate 10000 7" 0 9999 1 example_env]
    broken_examples(1)
  by (simp add: numeral_2_eq_2)

text \<open>
  The claim as written fails on a file of five bytes whose client takes the head and
  nothing more: an exception leaves the handler, which has printed the error and begun a
  500 response.
\<close>

theorem broken_pipe_counterexample:
  "outcome (do_GET example_env (File example_data) (Some ''bytes=0-4'') (new_conn (Some 1)))
     = Some (Some broken_pipe, [([206], [])]) \<and>
   aftermath (do_GET example_env (File example_data) (Some ''bytes=0-4'') (new_conn (Some 1)))
     = Some ([(500, Some ''[Errno 32] Broken pipe'')],
             [''Error processing range request: [Errno 32] Broken pipe''])"
  using do_GET_broken [of "''bytes=0-4''" example_data 0 4 0 example_env] broken_examples(2)
  by (auto simp: outcome_def aftermath_def example_data_def broken_pipe_def chunk_size_def)

end
